theory Spec2Isabelle
  imports Main "HOL-Library.Sublist" "HOL-Library.Product_Lexorder"
begin

section \<open>Data model\<close>

text \<open>
  The script \<^verbatim>\<open>yearlyChunks.py\<close> works on pandas data frames. A frame is modelled by its
  column labels, its row labels (the index) and its rows, one cell per column. A cell is a
  string, a number, a truth value, a time stamp or the missing value. A number is modelled
  by its value, an integer: whether pandas holds it as \<^verbatim>\<open>int64\<close> or as \<^verbatim>\<open>float64\<close> is read
  off the column it stands in (see \<open>dtype_of\<close> below), and fractions are not modelled.
\<close>

datatype date = Date (year: nat) (month: nat) (day: nat)

text \<open>
  A parsed time stamp: the calendar date and the time of day as they are written, and the
  offset from UTC in minutes.
\<close>

datatype timestamp =
  Timestamp (ts_date: date) (ts_hour: nat) (ts_minute: nat) (ts_second: nat) (utcoffset: int)

datatype val = Str string | Num int | Flag bool | Stamp timestamp | NaN

record DataFrame =
  columns :: "string list"
  index :: "nat list"
  rows :: "val list list"

text \<open>The exceptions that the modelled statements can raise.\<close>

datatype error =
    KeyError string
  | TypeError
  | ValueError
  | AttributeError
  | FileNotFoundError

datatype GroupBy = FILE_FUNCTION | FILE_FUNCTION_STUB | ALL_BUT_DATE | DONT_DROP_DUPLICATES

definition MONTHS :: "string list" where
  "MONTHS = [''January'', ''February'', ''March'', ''April'', ''May'', ''June'', ''July'',
     ''August'', ''September'', ''October'', ''November'', ''December'']"

text \<open>
  A frame is well formed when its column labels are distinct and every row has one cell
  per column and one row label.
\<close>

definition wf_frame :: "DataFrame \<Rightarrow> bool" where
  "wf_frame df =
     (distinct (columns df) \<and> length (index df) = length (rows df) \<and>
      list_all (\<lambda>r. length r = length (columns df)) (rows df))"

section \<open>The pandas operations the script uses\<close>

text \<open>The cell of row \<open>r\<close> under column \<open>c\<close>; a column the row does not have reads as missing.\<close>

definition cell :: "string list \<Rightarrow> val list \<Rightarrow> string \<Rightarrow> val" where
  "cell cols r c = (case map_of (zip cols r) c of Some v \<Rightarrow> v | None \<Rightarrow> NaN)"

text \<open>Re-aligns a row with columns \<open>cols\<close> to the columns \<open>cs\<close>, as \<^verbatim>\<open>pd.concat\<close> does.\<close>

definition align :: "string list \<Rightarrow> string list \<Rightarrow> val list \<Rightarrow> val list" where
  "align cs cols r = map (cell cols r) cs"

text \<open>
  The value an integer has as \<^verbatim>\<open>float64\<close>: integers below \<open>2^53\<close> in magnitude are kept,
  larger ones are rounded to 53 significant bits, a tie going to the even neighbour.
  \<open>bitlen\<close> is the number of binary digits.
\<close>

function bitlen :: "int \<Rightarrow> nat" where
  "bitlen n = (if n \<le> 0 then 0 else Suc (bitlen (n div 2)))"
  by pat_completeness auto
termination
  by (relation "measure nat") auto

declare bitlen.simps [simp del]

definition round53 :: "int \<Rightarrow> int" where
  "round53 m =
     (if m < 2 ^ 53 then m
      else let e = bitlen m - 53; q = m div 2 ^ e; r = m mod 2 ^ e; h = 2 ^ (e - 1)
           in (if h < r \<or> (r = h \<and> odd q) then q + 1 else q) * 2 ^ e)"

definition to_float64 :: "int \<Rightarrow> int" where
  "to_float64 n = (if n < 0 then - round53 (- n) else round53 n)"

text \<open>
  The type pandas gives a column, read off its cells: truth values only are \<^verbatim>\<open>bool\<close>,
  numbers only are \<^verbatim>\<open>int64\<close>, numbers and missing values are \<^verbatim>\<open>float64\<close>, anything else
  is \<^verbatim>\<open>object\<close>. \<open>Void\<close> is the type of a column that a frame does not have.
\<close>

datatype dtype = Bool | Int64 | Float64 | Object | Void

definition is_flag :: "val \<Rightarrow> bool" where
  "is_flag v = (case v of Flag b \<Rightarrow> True | _ \<Rightarrow> False)"

definition is_num :: "val \<Rightarrow> bool" where
  "is_num v = (case v of Num n \<Rightarrow> True | _ \<Rightarrow> False)"

definition dtype_of :: "val list \<Rightarrow> dtype" where
  "dtype_of vs =
     (if list_all is_flag vs then Bool
      else if list_all is_num vs then Int64
      else if list_all (\<lambda>v. is_num v \<or> v = NaN) vs then Float64
      else Object)"

definition column_dtype :: "DataFrame \<Rightarrow> string \<Rightarrow> dtype" where
  "column_dtype df c =
     (if c \<in> set (columns df) then dtype_of (map (\<lambda>r. cell (columns df) r c) (rows df))
      else Void)"

text \<open>
  The common type of two parts of a column, as \<^verbatim>\<open>pd.concat\<close> of two frames finds it:
  \<^verbatim>\<open>object\<close> absorbs every type; truth values become \<^verbatim>\<open>object\<close> when the other frame
  lacks the column, and numbers when the other part is numeric; integers become
  \<^verbatim>\<open>float64\<close> when the other part is \<^verbatim>\<open>float64\<close> or absent (the missing value needs it).
\<close>

definition common_dtype :: "dtype \<Rightarrow> dtype \<Rightarrow> dtype" where
  "common_dtype s t =
     (if s = t then s
      else if s = Object \<or> t = Object then Object
      else if (s = Bool \<and> t = Void) \<or> (s = Void \<and> t = Bool) then Object
      else if (s = Bool \<and> t = Int64) \<or> (s = Int64 \<and> t = Bool) then Int64
      else Float64)"

text \<open>
  The type of a column of the concatenation. A frame without rows has no say (the type of
  a column without cells cannot be read off).
\<close>

definition result_dtype :: "DataFrame \<Rightarrow> DataFrame \<Rightarrow> string \<Rightarrow> dtype" where
  "result_dtype a b c =
     (if rows a = [] then column_dtype b c
      else if rows b = [] then column_dtype a c
      else common_dtype (column_dtype a c) (column_dtype b c))"

text \<open>
  A cell of a part of type \<open>s\<close> converted to the common type \<open>t\<close>: an integer that
  becomes \<^verbatim>\<open>float64\<close> is rounded, a truth value that becomes a number is 1 or 0.
\<close>

definition cast :: "dtype \<Rightarrow> dtype \<Rightarrow> val \<Rightarrow> val" where
  "cast s t v =
     (case v of
        Num n \<Rightarrow> if s = Int64 \<and> t = Float64 then Num (to_float64 n) else v
      | Flag b \<Rightarrow>
          if s = Bool \<and> (t = Int64 \<or> t = Float64) then Num (if b then 1 else 0) else v
      | _ \<Rightarrow> v)"

text \<open>
  A row of frame \<open>df\<close>, one of the two frames \<open>a\<close> and \<open>b\<close>, as it stands in their
  concatenation with the columns \<open>cs\<close>: re-aligned, every cell converted to the type of
  its column.
\<close>

definition concat_row ::
  "DataFrame \<Rightarrow> DataFrame \<Rightarrow> string list \<Rightarrow> DataFrame \<Rightarrow> val list \<Rightarrow> val list" where
  "concat_row a b cs df r =
     map (\<lambda>c. cast (column_dtype df c) (result_dtype a b c) (cell (columns df) r c)) cs"

text \<open>
  \<^verbatim>\<open>pd.concat([df1, df2])\<close>: the columns of the first frame followed by the new columns of
  the second, the rows of the first followed by those of the second with their own labels,
  absent cells missing, every column converted to the common type of its two parts.
\<close>

definition pd_concat :: "DataFrame \<Rightarrow> DataFrame \<Rightarrow> DataFrame" where
  "pd_concat a b =
     (let cs = columns a @ filter (\<lambda>c. c \<notin> set (columns a)) (columns b)
      in \<lparr>columns = cs, index = index a @ index b,
          rows = map (concat_row a b cs a) (rows a) @ map (concat_row a b cs b) (rows b)\<rparr>)"

text \<open>\<^verbatim>\<open>df[c]\<close>: the cells of a column, or \<^verbatim>\<open>KeyError\<close>.\<close>

definition getitem :: "DataFrame \<Rightarrow> string \<Rightarrow> error + val list" where
  "getitem df c =
     (if c \<in> set (columns df) then Inr (map (\<lambda>r. cell (columns df) r c) (rows df))
      else Inl (KeyError c))"

text \<open>A row with the cell under column \<open>c\<close> replaced by \<open>v\<close>.\<close>

definition put :: "string \<Rightarrow> val \<Rightarrow> string list \<Rightarrow> val list \<Rightarrow> val list" where
  "put c v cols r = map2 (\<lambda>c' x. if c' = c then v else x) cols r"

text \<open>A row without the cell under column \<open>c\<close>.\<close>

definition without :: "string \<Rightarrow> string list \<Rightarrow> val list \<Rightarrow> val list" where
  "without c cols r = map snd (filter (\<lambda>p. fst p \<noteq> c) (zip cols r))"

text \<open>
  \<^verbatim>\<open>df[c] = vs\<close>, in place: an existing column is overwritten where it stands, a new one
  is appended as the last column.
\<close>

definition setitem :: "DataFrame \<Rightarrow> string \<Rightarrow> val list \<Rightarrow> DataFrame" where
  "setitem df c vs =
     (if c \<in> set (columns df)
      then df\<lparr>rows := map2 (\<lambda>r v. put c v (columns df) r) (rows df) vs\<rparr>
      else df\<lparr>columns := columns df @ [c], rows := map2 (\<lambda>r v. r @ [v]) (rows df) vs\<rparr>)"

text \<open>The columns and the rows of a frame after an assignment to column \<open>c\<close>.\<close>

definition assigned_columns :: "string \<Rightarrow> string list \<Rightarrow> string list" where
  "assigned_columns c cols = (if c \<in> set cols then cols else cols @ [c])"

definition assigned :: "string \<Rightarrow> val \<Rightarrow> string list \<Rightarrow> val list \<Rightarrow> val list" where
  "assigned c v cols r = (if c \<in> set cols then put c v cols r else r @ [v])"

text \<open>\<^verbatim>\<open>df[mask]\<close>: the rows, with their labels, whose mask entry is true.\<close>

definition mask_rows :: "bool list \<Rightarrow> DataFrame \<Rightarrow> DataFrame" where
  "mask_rows m df =
     df\<lparr>index := map snd (filter fst (zip m (index df))),
        rows := map snd (filter fst (zip m (rows df)))\<rparr>"

text \<open>\<^verbatim>\<open>df.drop([c], axis=1)\<close>: the frame without column \<open>c\<close>, or \<^verbatim>\<open>KeyError\<close>.\<close>

definition drop_column :: "string \<Rightarrow> DataFrame \<Rightarrow> error + DataFrame" where
  "drop_column c df =
     (if c \<in> set (columns df)
      then Inr (df\<lparr>columns := filter (\<lambda>x. x \<noteq> c) (columns df),
                   rows := map (without c (columns df)) (rows df)\<rparr>)
      else Inl (KeyError c))"

text \<open>\<^verbatim>\<open>df.reset_index(drop=True)\<close>: the rows relabelled \<open>0, 1, 2, ...\<close>\<close>

definition reset_index :: "DataFrame \<Rightarrow> DataFrame" where
  "reset_index df = df\<lparr>index := [0..<length (rows df)]\<rparr>"

text \<open>
  \<^verbatim>\<open>duplicated(keep='first')\<close> on a list of keys: an entry is true when an equal key
  stands before it (\<open>seen\<close> holds the keys passed so far).
\<close>

fun duplicated :: "'k list \<Rightarrow> 'k list \<Rightarrow> bool list" where
  "duplicated seen [] = []"
| "duplicated seen (k # ks) = (k \<in> set seen) # duplicated (k # seen) ks"

text \<open>
  The value by which a cell is compared with others when duplicates are looked for: a
  truth value equals the number 1 or 0, as Python compares and hashes them; the missing
  value equals itself.
\<close>

fun numeric :: "val \<Rightarrow> val" where
  "numeric (Flag b) = Num (if b then 1 else 0)"
| "numeric (Str s) = Str s"
| "numeric (Num n) = Num n"
| "numeric (Stamp t) = Stamp t"
| "numeric NaN = NaN"

text \<open>
  \<^verbatim>\<open>df.drop_duplicates(subset, keep='first')\<close>, the subset being \<open>subs\<close>. An empty
  frame is returned as it is, before the subset is looked at; a label of the subset that
  is no column raises \<^verbatim>\<open>KeyError\<close>; an empty subset on a non-empty frame raises
  \<^verbatim>\<open>ValueError\<close> when the key arrays are unpacked; otherwise the rows whose key was not
  seen before are kept, with their labels.
\<close>

definition drop_duplicates :: "string list \<Rightarrow> DataFrame \<Rightarrow> error + DataFrame" where
  "drop_duplicates subs df =
     (if rows df = [] \<or> columns df = [] then Inr df
      else case filter (\<lambda>c. c \<notin> set (columns df)) subs of
             c # cs \<Rightarrow> Inl (KeyError c)
           | [] \<Rightarrow>
               if subs = [] then Inl ValueError
               else Inr (mask_rows
                      (map Not (duplicated []
                         (map (\<lambda>r. map (\<lambda>c. numeric (cell (columns df) r c)) subs)
                            (rows df)))) df))"

text \<open>
  The comparison \<^verbatim>\<open>series <= k\<close> on one cell: numbers compare, a truth value counts as 0
  or 1, a missing value compares false, a string or a time stamp raises \<^verbatim>\<open>TypeError\<close>.
\<close>

fun le_scalar :: "int \<Rightarrow> val \<Rightarrow> error + bool" where
  "le_scalar k (Num n) = Inr (n \<le> k)"
| "le_scalar k (Flag b) = Inr ((if b then 1 else 0) \<le> k)"
| "le_scalar k NaN = Inr False"
| "le_scalar k (Str s) = Inl TypeError"
| "le_scalar k (Stamp t) = Inl TypeError"

text \<open>Collects the results of a column-wise operation; the first error is the error.\<close>

fun collect :: "('e + 'a) list \<Rightarrow> 'e + 'a list" where
  "collect [] = Inr []"
| "collect (x # xs) =
     (case x of
        Inl e \<Rightarrow> Inl e
      | Inr v \<Rightarrow> (case collect xs of Inl e \<Rightarrow> Inl e | Inr vs \<Rightarrow> Inr (v # vs)))"

section \<open>merge\<close>

text \<open>
  A call of \<^verbatim>\<open>merge\<close> is described by the two argument frames as the call leaves them,
  the lines it printed, and the frame it returned or the exception it raised.
\<close>

record merge_run =
  df1_after :: DataFrame
  df2_after :: DataFrame
  printed :: "string list"
  returned :: "error + DataFrame"

text \<open>\<^verbatim>\<open>df['LoC'] <= 1\<close>, the value assigned to the column \<^verbatim>\<open>Stub\<close>.\<close>

definition stub_series :: "DataFrame \<Rightarrow> error + val list" where
  "stub_series df =
     (case getitem df ''LoC'' of
        Inl e \<Rightarrow> Inl e
      | Inr vs \<Rightarrow> (case collect (map (le_scalar 1) vs) of
                    Inl e \<Rightarrow> Inl e
                  | Inr bs \<Rightarrow> Inr (map Flag bs)))"

text \<open>
  Lines 38 to 60: the concatenation, the removal of duplicates, the new index. Exactly one
  of the four tests on \<^verbatim>\<open>mergeType\<close> holds, so they are one case distinction. The subset
  \<^verbatim>\<open>result.columns.difference([name])\<close> is the columns without \<open>name\<close>; their order, which
  \<^verbatim>\<open>difference\<close> sorts, plays no part in the comparison of keys.
\<close>

definition merge_frames :: "DataFrame \<Rightarrow> DataFrame \<Rightarrow> GroupBy \<Rightarrow> string list \<times> (error + DataFrame)" where
  "merge_frames df1 df2 mergeType =
     (let result = pd_concat df1 df2 in
      case mergeType of
        FILE_FUNCTION \<Rightarrow>
          (case drop_duplicates [''Source File'', ''Element''] result of
             Inl e \<Rightarrow> ([], Inl e)
           | Inr result \<Rightarrow> ([], Inr (reset_index result)))
      | FILE_FUNCTION_STUB \<Rightarrow>
          (case drop_duplicates [''Source File'', ''Element'', ''Stub''] result of
             Inl e \<Rightarrow> ([], Inl e)
           | Inr result \<Rightarrow>
               (case drop_column ''Stub'' result of
                  Inl e \<Rightarrow> ([], Inl e)
                | Inr result \<Rightarrow> ([], Inr (reset_index result))))
      | ALL_BUT_DATE \<Rightarrow>
          if ''Date'' \<in> set (columns result) then
            (case drop_duplicates (filter (\<lambda>c. c \<noteq> ''Date'') (columns result)) result of
               Inl e \<Rightarrow> ([], Inl e)
             | Inr result \<Rightarrow> ([], Inr (reset_index result)))
          else if ''Date / Version'' \<in> set (columns result) then
            (case drop_duplicates (filter (\<lambda>c. c \<noteq> ''Date / Version'') (columns result)) result of
               Inl e \<Rightarrow> ([], Inl e)
             | Inr result \<Rightarrow> ([], Inr (reset_index result)))
          else ([''Error: Date column not found''], Inr (reset_index result))
      | DONT_DROP_DUPLICATES \<Rightarrow> ([], Inr (reset_index result)))"

text \<open>
  \<^verbatim>\<open>merge(df1, df2, mergeType)\<close>. Under \<^verbatim>\<open>FILE_FUNCTION_STUB\<close> the column \<^verbatim>\<open>Stub\<close> is first
  assigned in both arguments, in place; an exception raised on the second argument leaves
  the first one already changed. (When both arguments are one and the same frame, the two
  assignments write the same column twice.)
\<close>

definition merge :: "DataFrame \<Rightarrow> DataFrame \<Rightarrow> GroupBy \<Rightarrow> merge_run" where
  "merge df1 df2 mergeType =
     (if mergeType = FILE_FUNCTION_STUB then
        (case stub_series df1 of
           Inl e \<Rightarrow> \<lparr>df1_after = df1, df2_after = df2, printed = [], returned = Inl e\<rparr>
         | Inr s1 \<Rightarrow>
             (let df1' = setitem df1 ''Stub'' s1 in
              case stub_series df2 of
                Inl e \<Rightarrow> \<lparr>df1_after = df1', df2_after = df2, printed = [], returned = Inl e\<rparr>
              | Inr s2 \<Rightarrow>
                  (let df2' = setitem df2 ''Stub'' s2;
                       run = merge_frames df1' df2' mergeType
                   in \<lparr>df1_after = df1', df2_after = df2', printed = fst run,
                       returned = snd run\<rparr>)))
      else
        (let run = merge_frames df1 df2 mergeType
         in \<lparr>df1_after = df1, df2_after = df2, printed = fst run, returned = snd run\<rparr>))"

section \<open>Dates and their text forms\<close>

text \<open>Dates compare by year, then month, then day.\<close>

fun date_le :: "date \<Rightarrow> date \<Rightarrow> bool" where
  "date_le (Date y m d) (Date y' m' d') =
     (y < y' \<or> (y = y' \<and> (m < m' \<or> (m = m' \<and> d \<le> d'))))"

definition digit_val :: "char \<Rightarrow> nat option" where
  "digit_val c =
     map_of [(CHR ''0'', 0), (CHR ''1'', 1), (CHR ''2'', 2), (CHR ''3'', 3), (CHR ''4'', 4),
             (CHR ''5'', 5), (CHR ''6'', 6), (CHR ''7'', 7), (CHR ''8'', 8), (CHR ''9'', 9)] c"

text \<open>The value of a run of decimal digits, continuing from \<open>acc\<close>.\<close>

fun number :: "nat \<Rightarrow> string \<Rightarrow> nat option" where
  "number acc [] = Some acc"
| "number acc (c # cs) =
     (case digit_val c of None \<Rightarrow> None | Some d \<Rightarrow> number (10 * acc + d) cs)"

text \<open>
  A numeric field of one or two digits with a value from \<open>lo\<close> to \<open>hi\<close>: the patterns of
  \<^verbatim>\<open>%d\<close> (1 to 31), \<^verbatim>\<open>%m\<close> (1 to 12), \<^verbatim>\<open>%H\<close> (0 to 23), \<^verbatim>\<open>%M\<close> (0 to 59) and
  \<^verbatim>\<open>%S\<close> (0 to 61).
\<close>

definition field :: "nat \<Rightarrow> nat \<Rightarrow> string \<Rightarrow> nat option" where
  "field lo hi s =
     (if length s = 1 \<or> length s = 2
      then (case number 0 s of
              None \<Rightarrow> None
            | Some n \<Rightarrow> if lo \<le> n \<and> n \<le> hi then Some n else None)
      else None)"

text \<open>\<^verbatim>\<open>%Y\<close>: exactly four digits.\<close>

definition year_field :: "string \<Rightarrow> nat option" where
  "year_field s = (if length s = 4 then number 0 s else None)"

definition leap :: "nat \<Rightarrow> bool" where
  "leap y = (if y mod 100 = 0 then y mod 400 = 0 else y mod 4 = 0)"

definition days_in_month :: "nat \<Rightarrow> nat \<Rightarrow> nat" where
  "days_in_month y m =
     (if m = 2 then (if leap y then 29 else 28)
      else if m = 4 \<or> m = 6 \<or> m = 9 \<or> m = 11 then 30 else 31)"

text \<open>The date constructor: a year below 1 or a day the month does not have is refused.\<close>

definition make_date :: "nat \<Rightarrow> nat \<Rightarrow> nat \<Rightarrow> date option" where
  "make_date y m d =
     (if 1 \<le> y \<and> 1 \<le> m \<and> m \<le> 12 \<and> 1 \<le> d \<and> d \<le> days_in_month y m
      then Some (Date y m d) else None)"

text \<open>Splits a string at every character that satisfies \<open>P\<close>; \<open>cur\<close> is the piece being read.\<close>

fun split_on :: "(char \<Rightarrow> bool) \<Rightarrow> string \<Rightarrow> string \<Rightarrow> string list" where
  "split_on P cur [] = [cur]"
| "split_on P cur (c # cs) =
     (if P c then cur # split_on P [] cs else split_on P (cur @ [c]) cs)"

text \<open>
  \<^verbatim>\<open>datetime.strptime(lastDate, '%d.%m.%Y').date()\<close>: day, month and year separated by
  dots; the day may also be written as a blank and one digit. \<open>None\<close> stands for the
  \<^verbatim>\<open>ValueError\<close> of a text that does not match or names no date.
\<close>

definition day_field :: "string \<Rightarrow> nat option" where
  "day_field s =
     (case s of
        [a, b] \<Rightarrow> if a = CHR '' '' then field 1 9 [b] else field 1 31 s
      | _ \<Rightarrow> field 1 31 s)"

definition strptime_dmy :: "string \<Rightarrow> date option" where
  "strptime_dmy s =
     (case split_on (\<lambda>c. c = CHR ''.'') [] s of
        [d, m, y] \<Rightarrow>
          (case (day_field d, field 1 12 m, year_field y) of
             (Some d', Some m', Some y') \<Rightarrow> make_date y' m' d'
           | _ \<Rightarrow> None)
      | _ \<Rightarrow> None)"

text \<open>\<^verbatim>\<open>str(date)\<close>: year, month and day as four, two and two digits.\<close>

definition digit_char :: "nat \<Rightarrow> char" where
  "digit_char n = ''0123456789'' ! (n mod 10)"

fun fixed :: "nat \<Rightarrow> nat \<Rightarrow> string" where
  "fixed 0 n = []"
| "fixed (Suc w) n = fixed w (n div 10) @ [digit_char n]"

definition str_date :: "date \<Rightarrow> string" where
  "str_date dt =
     fixed 4 (year dt) @ ''-'' @ fixed 2 (month dt) @ ''-'' @ fixed 2 (day dt)"

text \<open>\<^verbatim>\<open>str(n)\<close> for an integer.\<close>

fun str_nat :: "nat \<Rightarrow> string" where
  "str_nat n = (if n < 10 then [digit_char n] else str_nat (n div 10) @ [digit_char n])"

declare str_nat.simps [simp del]

definition str_int :: "int \<Rightarrow> string" where
  "str_int i = (if i < 0 then CHR ''-'' # str_nat (nat (- i)) else str_nat (nat i))"

text \<open>
  The format \<^verbatim>\<open>'%a, %d %b %Y %H:%M:%S %z'\<close> of the column \<^verbatim>\<open>Date\<close>, for instance
  \<^verbatim>\<open>Sun, 03 Nov 2013 10:00:00 +0100\<close>: the abbreviated English weekday and a comma, the
  day, the abbreviated English month, the year, the time and the offset from UTC, separated
  by runs of white space. Names are matched without regard to letter case; the weekday is not
  compared with the date.
\<close>

definition whitespace :: "char \<Rightarrow> bool" where
  "whitespace c =
     (c \<in> set [CHR '' '', CHR 0x09, CHR 0x0A, CHR 0x0B, CHR 0x0C, CHR 0x0D,
               CHR 0x1C, CHR 0x1D, CHR 0x1E, CHR 0x1F])"

definition lower :: "char \<Rightarrow> char" where
  "lower c =
     (case map_of (zip ''ABCDEFGHIJKLMNOPQRSTUVWXYZ'' ''abcdefghijklmnopqrstuvwxyz'') c of
        Some l \<Rightarrow> l
      | None \<Rightarrow> c)"

definition weekday_abbr :: "string \<Rightarrow> bool" where
  "weekday_abbr s =
     (map lower s \<in> set [''mon,'', ''tue,'', ''wed,'', ''thu,'', ''fri,'', ''sat,'', ''sun,''])"

definition month_abbr :: "string \<Rightarrow> nat option" where
  "month_abbr s =
     map_of [(''jan'', 1), (''feb'', 2), (''mar'', 3), (''apr'', 4), (''may'', 5), (''jun'', 6),
             (''jul'', 7), (''aug'', 8), (''sep'', 9), (''oct'', 10), (''nov'', 11),
             (''dec'', 12)] (map lower s)"

text \<open>
  The seconds that may end an offset: two digits below 60, and after them nothing or a dot
  and one to six digits.
\<close>

definition offset_seconds :: "string \<Rightarrow> bool" where
  "offset_seconds s =
     (length (take 2 s) = 2 \<and> field 0 59 (take 2 s) \<noteq> None \<and>
      (if drop 2 s = [] then True
       else take 1 (drop 2 s) = ''.'' \<and> 1 \<le> length (drop 3 s) \<and> length (drop 3 s) \<le> 6 \<and>
            number 0 (drop 3 s) \<noteq> None))"

text \<open>
  \<^verbatim>\<open>%z\<close>: the letter Z, or a sign, two digits of hours and two of minutes (below 60),
  optionally followed by seconds; hours, minutes and seconds are separated by colons or
  not at all, not the one way here and the other way there. The value is the offset in
  whole minutes, the seconds being dropped, and stays below a day.
\<close>

definition utc_offset :: "string \<Rightarrow> int option" where
  "utc_offset s =
     (if s = ''Z'' then Some 0
      else case s of
        sg # h1 # h2 # rest \<Rightarrow>
          (if sg = CHR ''+'' \<or> sg = CHR ''-'' then
             (let colon = (take 1 rest = '':'');
                  body = (if colon then drop 1 rest else rest);
                  mm = take 2 body;
                  after = drop 2 body;
                  tail_ok = (if after = [] then True
                             else if colon
                               then take 1 after = '':'' \<and> offset_seconds (drop 1 after)
                               else offset_seconds after)
              in case (number 0 [h1, h2], if length mm = 2 then field 0 59 mm else None) of
                (Some h, Some m) \<Rightarrow>
                  if tail_ok \<and> 60 * h + m < 1440
                  then Some ((if sg = CHR ''-'' then - 1 else 1) * int (60 * h + m))
                  else None
              | _ \<Rightarrow> None)
           else None)
      | _ \<Rightarrow> None)"

text \<open>
  The number of days from 1 January 1970 to a date of the Gregorian calendar, and the
  seconds from the start of 1 January 1970 to a time of day on a date.
\<close>

definition days_from_civil :: "int \<Rightarrow> int \<Rightarrow> int \<Rightarrow> int" where
  "days_from_civil y m d =
     (let y' = (if m \<le> 2 then y - 1 else y);
          era = y' div 400;
          yoe = y' - era * 400;
          doy = (153 * (if 2 < m then m - 3 else m + 9) + 2) div 5 + d - 1;
          doe = yoe * 365 + yoe div 4 - yoe div 100 + doy
      in era * 146097 + doe - 719468)"

definition epoch_seconds :: "date \<Rightarrow> nat \<Rightarrow> nat \<Rightarrow> nat \<Rightarrow> int" where
  "epoch_seconds dt H M S =
     ((days_from_civil (int (year dt)) (int (month dt)) (int (day dt)) * 24 + int H) * 60 + int M)
       * 60 + int S"

text \<open>
  A time stamp of pandas counts nanoseconds in 64 bits: the seconds it can hold run from
  21 September 1677, 00:12:44, to 11 April 2262, 23:47:16.
\<close>

definition in_bounds :: "int \<Rightarrow> bool" where
  "in_bounds x = (- 9223372036 \<le> x \<and> x \<le> 9223372036)"

text \<open>The day after a date.\<close>

definition next_day :: "date \<Rightarrow> date" where
  "next_day dt =
     (if day dt < days_in_month (year dt) (month dt) then Date (year dt) (month dt) (day dt + 1)
      else if month dt < 12 then Date (year dt) (month dt + 1) 1
      else Date (year dt + 1) 1 1)"

text \<open>
  The time stamp of a date and a time of day whose seconds may be 60 or 61: the seconds
  beyond 59 are carried into the minute, the hour and the day.
\<close>

definition carried :: "date \<Rightarrow> nat \<Rightarrow> nat \<Rightarrow> nat \<Rightarrow> int \<Rightarrow> timestamp" where
  "carried dt H M S off =
     (if S < 60 then Timestamp dt H M S off
      else if M < 59 then Timestamp dt H (M + 1) (S - 60) off
      else if H < 23 then Timestamp dt (H + 1) 0 (S - 60) off
      else Timestamp (next_day dt) 0 0 (S - 60) off)"

text \<open>
  One value of the column parsed with the format. \<open>None\<close> stands for the \<^verbatim>\<open>ValueError\<close> of
  a text that does not match or names no date, and for the error of a time that a time
  stamp cannot hold, as written or in UTC.
\<close>

definition strptime_rfc :: "string \<Rightarrow> timestamp option" where
  "strptime_rfc s =
     (if s = [] \<or> whitespace (hd s) \<or> whitespace (last s) then None
      else case filter (\<lambda>w. w \<noteq> []) (split_on whitespace [] s) of
        [a, d, b, y, t, z] \<Rightarrow>
          (if weekday_abbr a then
             (case split_on (\<lambda>c. c = CHR '':'') [] t of
                [hh, mm, ss] \<Rightarrow>
                  (case (field 1 31 d, month_abbr b, year_field y, field 0 23 hh,
                         field 0 59 mm, field 0 61 ss, utc_offset z) of
                     (Some d', Some m', Some y', Some H, Some M, Some S, Some off) \<Rightarrow>
                       (case make_date y' m' d' of
                          None \<Rightarrow> None
                        | Some dt \<Rightarrow>
                            if in_bounds (epoch_seconds dt H M S) \<and>
                               in_bounds (epoch_seconds dt H M S - 60 * off)
                            then Some (carried dt H M S off)
                            else None)
                   | _ \<Rightarrow> None)
              | _ \<Rightarrow> None)
           else None)
      | _ \<Rightarrow> None)"

text \<open>
  \<^verbatim>\<open>pd.to_datetime(series, format=...)\<close>: every cell parsed, or the exception of the first
  cell that fails. A string is parsed with the format; a missing value becomes the missing
  time stamp; a time stamp is kept; a number or a truth value, read as text, does not match
  the format.
\<close>

definition to_datetime :: "val list \<Rightarrow> error + val list" where
  "to_datetime vs =
     collect (map (\<lambda>v. case v of
                          Str s \<Rightarrow> (case strptime_rfc s of
                                      Some t \<Rightarrow> Inr (Stamp t)
                                    | None \<Rightarrow> Inl ValueError)
                        | NaN \<Rightarrow> Inr NaN
                        | Stamp t \<Rightarrow> Inr (Stamp t)
                        | _ \<Rightarrow> Inl ValueError) vs)"

text \<open>
  \<^verbatim>\<open>series.dt.date\<close>: the calendar dates as written, none for a missing time stamp. The
  accessor exists only on a column of time stamps (missing ones among them) with one
  common offset; otherwise it raises \<^verbatim>\<open>AttributeError\<close>.
\<close>

definition dt_date :: "val list \<Rightarrow> error + date option list" where
  "dt_date vs =
     (case collect (map (\<lambda>v. case v of
                                Stamp t \<Rightarrow> Inr (Some t)
                              | NaN \<Rightarrow> Inr None
                              | _ \<Rightarrow> Inl AttributeError) vs) of
        Inl e \<Rightarrow> Inl e
      | Inr ts \<Rightarrow>
          if length (remdups (map utcoffset (List.map_filter (\<lambda>t. t) ts))) \<le> 1
          then Inr (map (map_option ts_date) ts)
          else Inl AttributeError)"

text \<open>
  \<^verbatim>\<open>dates <= date\<close> on one entry: a missing date compares false.
\<close>

definition not_later :: "date \<Rightarrow> date option \<Rightarrow> bool" where
  "not_later date d = (case d of Some d' \<Rightarrow> date_le d' date | None \<Rightarrow> False)"

section \<open>mergeErrorReports\<close>

text \<open>
  The file system is a parameter: \<open>isdir\<close> answers \<^verbatim>\<open>os.path.isdir\<close> and \<open>read_excel\<close>
  answers \<^verbatim>\<open>pd.read_excel\<close> for a path. A run is the list of printed lines and the value
  returned or the exception raised.
\<close>

definition report_names :: "string list \<Rightarrow> string list" where
  "report_names years = concat (map (\<lambda>y. map (\<lambda>m. y @ ''-'' @ m) MONTHS) years)"

text \<open>
  Lines 64 to 75, over the report names in the order of the two loops; \<open>result\<close> is the
  accumulator, \<open>None\<close> until the first report is loaded.
\<close>

fun load_reports ::
  "(string \<Rightarrow> bool) \<Rightarrow> (string \<Rightarrow> error + DataFrame) \<Rightarrow> string \<Rightarrow> GroupBy \<Rightarrow> string list \<Rightarrow>
   DataFrame option \<Rightarrow> string list \<times> (error + DataFrame option)" where
  "load_reports isdir read_excel baseFolder mergeType [] result = ([], Inr result)"
| "load_reports isdir read_excel baseFolder mergeType (reportName # names) result =
     (let folder = baseFolder @ ''/'' @ reportName in
      if isdir folder then
        (case read_excel (baseFolder @ ''/'' @ reportName @ ''/'' @ reportName @ ''.xlsx'') of
           Inl e \<Rightarrow> ([], Inl e)
         | Inr df \<Rightarrow>
             (case result of
                None \<Rightarrow> load_reports isdir read_excel baseFolder mergeType names (Some df)
              | Some acc \<Rightarrow>
                  (let run = merge acc df mergeType in
                   case returned run of
                     Inl e \<Rightarrow> (printed run, Inl e)
                   | Inr r \<Rightarrow>
                       (let rest = load_reports isdir read_excel baseFolder mergeType names (Some r)
                        in (printed run @ fst rest, snd rest)))))
      else
        (let rest = load_reports isdir read_excel baseFolder mergeType names result
         in ((folder @ '' doesn't exist'') # fst rest, snd rest)))"

text \<open>
  Lines 78 to 82, the date bound: the cut-off is parsed first, then the column \<^verbatim>\<open>Date\<close>
  of the accumulator is read (which fails on \<^verbatim>\<open>None\<close>), parsed and stored as
  \<^verbatim>\<open>DateObject\<close>; the rows whose date is not after the cut-off are kept (a row without
  a date is not) and the auxiliary column is dropped.
\<close>

definition drop_reports_after ::
  "DataFrame option \<Rightarrow> string \<Rightarrow> string list \<times> (error + DataFrame)" where
  "drop_reports_after result lastDate =
     (case strptime_dmy lastDate of
        None \<Rightarrow> ([], Inl ValueError)
      | Some date \<Rightarrow>
          ([''Drop all reports after: '' @ str_date date],
           case result of
             None \<Rightarrow> Inl TypeError
           | Some df \<Rightarrow>
               (case getitem df ''Date'' of
                  Inl e \<Rightarrow> Inl e
                | Inr ds \<Rightarrow>
                    (case to_datetime ds of
                       Inl e \<Rightarrow> Inl e
                     | Inr stamps \<Rightarrow>
                         (let df' = setitem df ''DateObject'' stamps in
                          case getitem df' ''DateObject'' of
                            Inl e \<Rightarrow> Inl e
                          | Inr col \<Rightarrow>
                              (case dt_date col of
                                 Inl e \<Rightarrow> Inl e
                               | Inr dates \<Rightarrow>
                                   drop_column ''DateObject''
                                     (mask_rows (map (not_later date) dates) df')))))))"

definition mergeErrorReports ::
  "(string \<Rightarrow> bool) \<Rightarrow> (string \<Rightarrow> error + DataFrame) \<Rightarrow> string \<Rightarrow> string list \<Rightarrow> GroupBy \<Rightarrow>
   string option \<Rightarrow> string list \<times> (error + DataFrame option)" where
  "mergeErrorReports isdir read_excel baseFolder years mergeType lastDate =
     (let loaded = load_reports isdir read_excel baseFolder mergeType (report_names years) None in
      case snd loaded of
        Inl e \<Rightarrow> (fst loaded, Inl e)
      | Inr result \<Rightarrow>
          (case lastDate of
             None \<Rightarrow> (fst loaded, Inr result)
           | Some s \<Rightarrow>
               (let bound = drop_reports_after result s in
                (fst loaded @ fst bound,
                 case snd bound of Inl e \<Rightarrow> Inl e | Inr df \<Rightarrow> Inr (Some df)))))"

section \<open>filterByDiff\<close>

text \<open>\<^verbatim>\<open>diff[diff['Modified'].isin(modifiedFlags)]\<close>\<close>

definition select_modified :: "val list \<Rightarrow> DataFrame \<Rightarrow> error + DataFrame" where
  "select_modified modifiedFlags diff =
     (case getitem diff ''Modified'' of
        Inl e \<Rightarrow> Inl e
      | Inr vs \<Rightarrow> Inr (mask_rows (map (\<lambda>v. v \<in> set modifiedFlags) vs) diff))"

text \<open>\<^verbatim>\<open>df.loc[mask, c] = v\<close> for an existing column \<open>c\<close>, in place.\<close>

definition loc_set :: "bool list \<Rightarrow> string \<Rightarrow> val \<Rightarrow> DataFrame \<Rightarrow> DataFrame" where
  "loc_set m c v df =
     df\<lparr>rows := map2 (\<lambda>b r. if b then put c v (columns df) r else r) m (rows df)\<rparr>"

text \<open>
  \<^verbatim>\<open>series.str.startswith(p)\<close> used as a mask. A column with cells but without any string
  has no accessor \<^verbatim>\<open>str\<close>, which is an \<^verbatim>\<open>AttributeError\<close>; in a column with strings, a
  cell that is not a string gives no truth value, and the selection with such a mask
  raises \<^verbatim>\<open>ValueError\<close>.
\<close>

definition is_str :: "val \<Rightarrow> bool" where
  "is_str v = (case v of Str s \<Rightarrow> True | _ \<Rightarrow> False)"

definition str_startswith :: "string \<Rightarrow> val list \<Rightarrow> error + bool list" where
  "str_startswith p vs =
     (if vs \<noteq> [] \<and> list_all (\<lambda>v. \<not> is_str v) vs then Inl AttributeError
      else collect (map (\<lambda>v. case v of Str s \<Rightarrow> Inr (prefix p s) | _ \<Rightarrow> Inl ValueError) vs))"

text \<open>
  The loop of lines 132 to 140 over the rows of the diff, with the columns \<open>dcols\<close> of the
  diff. It returns the frame as the loop leaves it and the exception that ended it, if any.
\<close>

fun mark_edited ::
  "string list \<Rightarrow> val list list \<Rightarrow> DataFrame \<Rightarrow> DataFrame \<times> error option" where
  "mark_edited dcols [] df = (df, None)"
| "mark_edited dcols (row # others) df =
     (if ''File'' \<in> set dcols then
        (case cell dcols row ''File'' of
           Str file \<Rightarrow>
             (case getitem df ''Source File'' of
                Inl e \<Rightarrow> (df, Some e)
              | Inr sf \<Rightarrow>
                  if suffix ''.c'' file \<or> suffix ''.h'' file
                  then mark_edited dcols others
                         (loc_set (map (\<lambda>v. v = Str file) sf) ''Edited'' (Flag True) df)
                  else (case str_startswith file sf of
                          Inl e \<Rightarrow> (df, Some e)
                        | Inr m \<Rightarrow>
                            mark_edited dcols others (loc_set m ''Edited'' (Flag True) df)))
         | _ \<Rightarrow> (df, Some AttributeError))
      else (df, Some (KeyError ''File'')))"

text \<open>The built-in \<^verbatim>\<open>len\<close>: defined on a frame, a \<^verbatim>\<open>TypeError\<close> on an integer.\<close>

datatype pyobj = PyInt int | PyFrame DataFrame

fun py_len :: "pyobj \<Rightarrow> error + nat" where
  "py_len (PyFrame df) = Inr (length (rows df))"
| "py_len (PyInt n) = Inl TypeError"

text \<open>
  A call of \<^verbatim>\<open>filterByDiff\<close>: the argument frame as the call leaves it, the lines printed,
  and the frame returned or the exception raised.
\<close>

record filter_run =
  frame_after :: DataFrame
  shown :: "string list"
  outcome :: "error + DataFrame"

text \<open>
  Lines 123 to 146: the frame of the caller as these lines leave it, and the value of the
  local \<^verbatim>\<open>df\<close> after line 146 or the exception raised before. \<open>read_csv\<close> answers
  \<^verbatim>\<open>pd.read_csv\<close> for a path.
\<close>

definition edited_rows ::
  "(string \<Rightarrow> error + DataFrame) \<Rightarrow> DataFrame \<Rightarrow> string \<Rightarrow> val list option \<Rightarrow>
   DataFrame \<times> (error + DataFrame)" where
  "edited_rows read_csv df pathToDiff modifiedFlags =
     (case read_csv pathToDiff of
        Inl e \<Rightarrow> (df, Inl e)
      | Inr diff \<Rightarrow>
          (let df0 = setitem df ''Edited'' (replicate (length (rows df)) (Flag False)) in
           case (case modifiedFlags of
                   None \<Rightarrow> Inr diff
                 | Some flags \<Rightarrow> select_modified flags diff) of
             Inl e \<Rightarrow> (df0, Inl e)
           | Inr diff' \<Rightarrow>
               (case mark_edited (columns diff') (rows diff') df0 of
                  (df1, Some e) \<Rightarrow> (df1, Inl e)
                | (df1, None) \<Rightarrow>
                    (case getitem df1 ''Edited'' of
                       Inl e \<Rightarrow> (df1, Inl e)
                     | Inr ed \<Rightarrow>
                         (df1, drop_column ''Edited''
                                 (mask_rows (map (\<lambda>v. v = Flag True) ed) df1))))))"

text \<open>
  \<^verbatim>\<open>filterByDiff(df, pathToDiff, modifiedFlags)\<close>. \<^verbatim>\<open>nRowsBefore\<close> and \<^verbatim>\<open>nRowsAfter\<close> are
  integers; line 150 applies \<^verbatim>\<open>len\<close> to \<^verbatim>\<open>nRowsAfter\<close> before anything is printed.
\<close>

definition filterByDiff ::
  "(string \<Rightarrow> error + DataFrame) \<Rightarrow> DataFrame \<Rightarrow> string \<Rightarrow> val list option \<Rightarrow> filter_run" where
  "filterByDiff read_csv df pathToDiff modifiedFlags =
     (let nRowsBefore = int (length (rows df)) in
      case edited_rows read_csv df pathToDiff modifiedFlags of
        (df1, Inl e) \<Rightarrow> \<lparr>frame_after = df1, shown = [], outcome = Inl e\<rparr>
      | (df1, Inr res) \<Rightarrow>
          (case py_len (PyFrame res) of
             Inl e \<Rightarrow> \<lparr>frame_after = df1, shown = [], outcome = Inl e\<rparr>
           | Inr n \<Rightarrow>
               (let nRowsAfter = int n in
                case py_len (PyInt nRowsAfter) of
                  Inl e \<Rightarrow> \<lparr>frame_after = df1, shown = [], outcome = Inl e\<rparr>
                | Inr k \<Rightarrow>
                    \<lparr>frame_after = df1,
                     shown = [''Dropped '' @ str_int (nRowsBefore - int k) @ '' rows''],
                     outcome = Inr res\<rparr>)))"

section \<open>The notions of the specification\<close>

text \<open>
  The definitions of this section follow the words of the specification, not the code; the
  theorems compare the code with them.

  Removing duplicates and keeping the first occurrence: a row is kept, and the later rows
  with its key are removed.
\<close>

function keep_first :: "('r \<Rightarrow> 'k) \<Rightarrow> 'r list \<Rightarrow> 'r list" where
  "keep_first key [] = []"
| "keep_first key (r # rs) = r # keep_first key (filter (\<lambda>x. key x \<noteq> key r) rs)"
  by pat_completeness auto
termination
  by (relation "measure (\<lambda>(key, rs). length rs)") (auto simp: less_Suc_eq_le)

text \<open>The stub flag of a row, \<^verbatim>\<open>LinesOfCode <= 1\<close>.\<close>

definition stub_flag :: "val \<Rightarrow> bool" where
  "stub_flag v = (le_scalar 1 v = Inr True)"

text \<open>The name of the date attribute of a table: one of the two accepted names.\<close>

definition date_column :: "string list \<Rightarrow> string" where
  "date_column cols = (if ''Date'' \<in> set cols then ''Date'' else ''Date / Version'')"

text \<open>
  The duplicate key of a row under the three policies that have one: file and element;
  file, element and stub flag; all columns but the date attribute.
\<close>

fun dup_key :: "GroupBy \<Rightarrow> string list \<Rightarrow> val list \<Rightarrow> val list" where
  "dup_key FILE_FUNCTION cols r = [cell cols r ''Source File'', cell cols r ''Element'']"
| "dup_key FILE_FUNCTION_STUB cols r =
     [cell cols r ''Source File'', cell cols r ''Element'',
      Flag (stub_flag (cell cols r ''LoC''))]"
| "dup_key ALL_BUT_DATE cols r =
     map (cell cols r) (filter (\<lambda>c. c \<noteq> date_column cols) cols)"

text \<open>The columns a policy's key is made of are columns of one of the two tables.\<close>

fun key_columns_present :: "GroupBy \<Rightarrow> string set \<Rightarrow> bool" where
  "key_columns_present FILE_FUNCTION cs = (''Source File'' \<in> cs \<and> ''Element'' \<in> cs)"
| "key_columns_present FILE_FUNCTION_STUB cs =
     (''Source File'' \<in> cs \<and> ''Element'' \<in> cs \<and> ''LoC'' \<in> cs)"
| "key_columns_present ALL_BUT_DATE cs = (''Date'' \<in> cs \<or> ''Date / Version'' \<in> cs)"
| "key_columns_present DONT_DROP_DUPLICATES cs = True"

text \<open>
  A manifest entry matches a source file: an entry that ends in \<^verbatim>\<open>.c\<close> or \<^verbatim>\<open>.h\<close> when it
  is the file, any other entry when the file starts with it.
\<close>

fun entry_matches :: "val \<Rightarrow> val \<Rightarrow> bool" where
  "entry_matches (Str path) (Str file) =
     (if suffix ''.c'' path \<or> suffix ''.h'' path then file = path else prefix path file)"
| "entry_matches e f = False"

text \<open>
  The paths of the manifest entries that count: all of them, or those whose flag is one of
  the allowed flags.
\<close>

definition manifest_paths :: "val list option \<Rightarrow> DataFrame \<Rightarrow> val list" where
  "manifest_paths allowedFlags diff =
     map (\<lambda>e. cell (columns diff) e ''File'')
       (filter (\<lambda>e. case allowedFlags of
                       None \<Rightarrow> True
                     | Some flags \<Rightarrow> cell (columns diff) e ''Modified'' \<in> set flags)
          (rows diff))"

text \<open>A row is matched by at least one of the paths.\<close>

definition matched :: "val list \<Rightarrow> string list \<Rightarrow> val list \<Rightarrow> bool" where
  "matched paths cols r = list_ex (\<lambda>p. entry_matches p (cell cols r ''Source File'')) paths"

text \<open>
  The time stamp of a report row: its column \<^verbatim>\<open>Date\<close> read with the one format (a cell
  that is a time stamp already is taken as it is); a row whose date is missing has none.
  The calendar date of the row is the date part of the time stamp, as written.
\<close>

definition report_stamp :: "string list \<Rightarrow> val list \<Rightarrow> timestamp option" where
  "report_stamp cols r =
     (case cell cols r ''Date'' of
        Str s \<Rightarrow> strptime_rfc s
      | Stamp t \<Rightarrow> Some t
      | _ \<Rightarrow> None)"

definition report_date :: "string list \<Rightarrow> val list \<Rightarrow> date option" where
  "report_date cols r = map_option ts_date (report_stamp cols r)"

text \<open>The date of a report row can be read: it is missing, or it matches the format.\<close>

definition date_readable :: "string list \<Rightarrow> val list \<Rightarrow> bool" where
  "date_readable cols r =
     (case cell cols r ''Date'' of
        Str s \<Rightarrow> strptime_rfc s \<noteq> None
      | Stamp t \<Rightarrow> True
      | NaN \<Rightarrow> True
      | _ \<Rightarrow> False)"

text \<open>The dates of the rows are all written with the same offset from UTC.\<close>

definition one_offset :: "string list \<Rightarrow> val list list \<Rightarrow> bool" where
  "one_offset cols rs =
     (length (remdups (map utcoffset (List.map_filter (report_stamp cols) rs))) \<le> 1)"

text \<open>
  The order of calendar dates: by year, then month, then day (the lexicographic order of
  the triples).
\<close>

definition on_or_before :: "date \<Rightarrow> date \<Rightarrow> bool" where
  "on_or_before d c = ((year d, month d, day d) \<le> (year c, month c, day c))"

text \<open>A report row is on or before the cut-off date.\<close>

definition not_after :: "date \<Rightarrow> string list \<Rightarrow> val list \<Rightarrow> bool" where
  "not_after cutoff cols r =
     (case report_date cols r of Some d \<Rightarrow> on_or_before d cutoff | None \<Rightarrow> False)"

text \<open>The labels of the rows of a table that satisfy \<open>P\<close>.\<close>

definition kept_labels :: "(val list \<Rightarrow> bool) \<Rightarrow> DataFrame \<Rightarrow> nat list" where
  "kept_labels P df = map snd (filter (\<lambda>p. P (fst p)) (zip (rows df) (index df)))"

text \<open>A column of a table is there and holds a string in every row.\<close>

definition text_column :: "string \<Rightarrow> DataFrame \<Rightarrow> bool" where
  "text_column c df =
     (c \<in> set (columns df) \<and> list_all (\<lambda>r. is_str (cell (columns df) r c)) (rows df))"

text \<open>
  A plain cell is a string, a missing value or an integer below \<open>2^53\<close> in magnitude (which
  \<^verbatim>\<open>float64\<close> holds exactly); a plain table has plain cells only.
\<close>

definition plain :: "val \<Rightarrow> bool" where
  "plain v = (case v of Str s \<Rightarrow> True | NaN \<Rightarrow> True | Num n \<Rightarrow> \<bar>n\<bar> < 2 ^ 53 | _ \<Rightarrow> False)"

definition plain_cells :: "DataFrame \<Rightarrow> bool" where
  "plain_cells df = list_all (list_all plain) (rows df)"

text \<open>
  The columns of the merged table: the columns of the first table, then the columns that
  only the second has; the stub policy leaves out a column \<^verbatim>\<open>Stub\<close>.
\<close>

definition merged_columns :: "GroupBy \<Rightarrow> DataFrame \<Rightarrow> DataFrame \<Rightarrow> string list" where
  "merged_columns p A B =
     (let cs = columns A @ filter (\<lambda>c. c \<notin> set (columns A)) (columns B)
      in if p = FILE_FUNCTION_STUB then filter (\<lambda>c. c \<noteq> ''Stub'') cs else cs)"

text \<open>The rows of a table under the columns \<open>cs\<close> of the merged table.\<close>

definition aligned_rows :: "string list \<Rightarrow> DataFrame \<Rightarrow> val list list" where
  "aligned_rows cs df = map (align cs (columns df)) (rows df)"

text \<open>
  What an in-place assignment of the stub flag does to a table: the column \<^verbatim>\<open>Stub\<close> is
  there (appended when it was absent) and holds \<^verbatim>\<open>LoC <= 1\<close> for every row; the index and
  every other column are as before.
\<close>

definition stub_assigned :: "DataFrame \<Rightarrow> DataFrame \<Rightarrow> bool" where
  "stub_assigned before after =
     (columns after = assigned_columns ''Stub'' (columns before) \<and>
      index after = index before \<and>
      getitem after ''Stub'' =
        Inr (map (\<lambda>r. Flag (stub_flag (cell (columns before) r ''LoC''))) (rows before)) \<and>
      list_all (\<lambda>c. getitem after c = getitem before c)
        (filter (\<lambda>c. c \<noteq> ''Stub'') (columns before)))"

section \<open>Scenario inputs\<close>

text \<open>The two one-row frames of the stub scenario.\<close>

definition stubA :: DataFrame where
  "stubA = \<lparr>columns = [''Source File'', ''Element'', ''LoC''], index = [0],
     rows = [[Str ''x.c'', Str ''f'', Num 1]]\<rparr>"

definition stubB :: DataFrame where
  "stubB = \<lparr>columns = [''Source File'', ''Element'', ''LoC''], index = [0],
     rows = [[Str ''x.c'', Str ''f'', Num 5]]\<rparr>"

text \<open>A frame without any date column.\<close>

definition undated :: DataFrame where
  "undated = \<lparr>columns = [''Source File'', ''Element''], index = [0],
     rows = [[Str ''a.c'', Str ''g'']]\<rparr>"

text \<open>The diff scenario: a manifest naming a folder, and a frame with two source files.\<close>

definition folderDiff :: DataFrame where
  "folderDiff = \<lparr>columns = [''File'', ''Modified''], index = [0],
     rows = [[Str ''src/drivers'', Str ''M'']]\<rparr>"

definition fileDiff :: DataFrame where
  "fileDiff = \<lparr>columns = [''File'', ''Modified''], index = [0],
     rows = [[Str ''src/net.c'', Str ''M'']]\<rparr>"

definition twoFiles :: DataFrame where
  "twoFiles = \<lparr>columns = [''Source File'', ''Element''], index = [0, 1],
     rows = [[Str ''src/drivers/net.c'', Str ''f''], [Str ''src/other/net.c'', Str ''g'']]\<rparr>"

definition oneFile :: DataFrame where
  "oneFile = \<lparr>columns = [''Source File'', ''Element''], index = [0],
     rows = [[Str ''src/net.c'', Str ''f'']]\<rparr>"

text \<open>The cut-off scenario: one report on 3 November 2013 and one on the day after.\<close>

definition twoReports :: DataFrame where
  "twoReports = \<lparr>columns = [''Source File'', ''Date''], index = [0, 1],
     rows = [[Str ''a.c'', Str ''Sun, 03 Nov 2013 23:59:59 +0100''],
             [Str ''b.c'', Str ''Mon, 04 Nov 2013 00:00:00 +0100'']]\<rparr>"

text \<open>The results of merging the two frames of the stub scenario.\<close>

definition bothKept :: DataFrame where
  "bothKept = \<lparr>columns = [''Source File'', ''Element'', ''LoC''], index = [0, 1],
     rows = [[Str ''x.c'', Str ''f'', Num 1], [Str ''x.c'', Str ''f'', Num 5]]\<rparr>"

definition firstKept :: DataFrame where
  "firstKept = \<lparr>columns = [''Source File'', ''Element'', ''LoC''], index = [0],
     rows = [[Str ''x.c'', Str ''f'', Num 1]]\<rparr>"

text \<open>A second frame without a date column; its first row is the row of \<open>undated\<close>.\<close>

definition undatedB :: DataFrame where
  "undatedB = \<lparr>columns = [''Source File'', ''Element''], index = [0, 1],
     rows = [[Str ''a.c'', Str ''g''], [Str ''b.c'', Str ''h'']]\<rparr>"

text \<open>
  A table with the integer \<open>2^53 + 1\<close>, which \<^verbatim>\<open>float64\<close> does not hold, and a table with
  a missing value in the same column.
\<close>

definition wideCount :: DataFrame where
  "wideCount = \<lparr>columns = [''Source File'', ''Element'', ''LoC''], index = [0],
     rows = [[Str ''a.c'', Str ''f'', Num 9007199254740993]]\<rparr>"

definition noCount :: DataFrame where
  "noCount = \<lparr>columns = [''Source File'', ''Element'', ''LoC''], index = [0],
     rows = [[Str ''b.c'', Str ''g'', NaN]]\<rparr>"

text \<open>Two reports of the same day written with different offsets from UTC.\<close>

definition twoOffsets :: DataFrame where
  "twoOffsets = \<lparr>columns = [''Source File'', ''Date''], index = [0, 1],
     rows = [[Str ''a.c'', Str ''Sun, 03 Nov 2013 10:00:00 +0100''],
             [Str ''b.c'', Str ''Sun, 03 Nov 2013 10:00:00 +0000'']]\<rparr>"

text \<open>Three reports: one before the cut-off, one without a date, one after the cut-off.\<close>

definition threeReports :: DataFrame where
  "threeReports = \<lparr>columns = [''Source File'', ''Date''], index = [4, 5, 6],
     rows = [[Str ''a.c'', Str ''Sun, 03 Nov 2013 23:59:59 +0100''],
             [Str ''n.c'', NaN],
             [Str ''b.c'', Str ''Mon, 04 Nov 2013 00:00:00 +0100'']]\<rparr>"

section \<open>Basic facts about the frame operations\<close>

lemma columns_pd_concat:
  "set (columns (pd_concat a b)) = set (columns a) \<union> set (columns b)"
  by (auto simp: pd_concat_def Let_def)

lemma cell_Cons: "cell (c # cs) (x # xs) c' = (if c' = c then x else cell cs xs c')"
  by (simp add: cell_def)

lemma align_same: "distinct cols \<Longrightarrow> length r = length cols \<Longrightarrow> align cols cols r = r"
proof (induction cols arbitrary: r)
  case Nil
  then show ?case by (simp add: align_def)
next
  case (Cons c cs)
  then obtain x xs where r: "r = x # xs" by (cases r) auto
  from Cons.prems have "map (cell (c # cs) (x # xs)) cs = map (cell cs xs) cs"
    by (intro map_cong) (auto simp: cell_Cons)
  with Cons r show ?case by (simp add: align_def cell_Cons)
qed

lemma map_align_same:
  "distinct cols \<Longrightarrow> list_all (\<lambda>r. length r = length cols) rs \<Longrightarrow> map (align cols cols) rs = rs"
  by (induction rs) (simp_all add: align_same)

lemma cell_Nil [simp]: "cell [] r c = NaN" "cell cols [] c = NaN"
  by (simp_all add: cell_def)

lemma put_Cons: "put c v (a # cols) (x # r) = (if a = c then v else x) # put c v cols r"
  by (simp add: put_def)

lemma put_Nil [simp]: "put c v [] r = []" "put c v cols [] = []"
  by (simp_all add: put_def)

lemma length_put: "length (put c v cols r) = min (length cols) (length r)"
  by (simp add: put_def)

lemma cell_put_same:
  "c \<in> set cols \<Longrightarrow> length r = length cols \<Longrightarrow> cell cols (put c v cols r) c = v"
proof (induction cols arbitrary: r)
  case Nil then show ?case by simp
next
  case (Cons a cols)
  then obtain x xs where "r = x # xs" by (cases r) auto
  with Cons show ?case by (auto simp: put_Cons cell_Cons)
qed

lemma cell_put_other:
  "c' \<noteq> c \<Longrightarrow> cell cols (put c v cols r) c' = cell cols r c'"
proof (induction cols arbitrary: r)
  case Nil then show ?case by simp
next
  case (Cons a cols)
  show ?case
  proof (cases r)
    case Nil then show ?thesis by simp
  next
    case (Cons x xs)
    with Cons.IH Cons.prems show ?thesis by (simp add: put_Cons cell_Cons)
  qed
qed

lemma without_Cons:
  "without c (a # cols) (x # r) = (if a = c then without c cols r else x # without c cols r)"
  by (simp add: without_def)

lemma without_Nil [simp]: "without c [] r = []" "without c cols [] = []"
  by (simp_all add: without_def)

lemma without_put: "without c cols (put c v cols r) = without c cols r"
proof (induction cols arbitrary: r)
  case Nil then show ?case by simp
next
  case (Cons a cols)
  show ?case
  proof (cases r)
    case Nil then show ?thesis by simp
  next
    case (Cons x xs)
    with Cons.IH show ?thesis by (simp add: put_Cons without_Cons)
  qed
qed

lemma put_put: "put c v cols (put c v cols r) = put c v cols r"
proof (induction cols arbitrary: r)
  case Nil then show ?case by simp
next
  case (Cons a cols)
  show ?case
  proof (cases r)
    case Nil then show ?thesis by simp
  next
    case (Cons x xs)
    with Cons.IH show ?thesis by (simp add: put_Cons)
  qed
qed

lemma without_absent:
  "c \<notin> set cols \<Longrightarrow> length r = length cols \<Longrightarrow> without c cols r = r"
proof (induction cols arbitrary: r)
  case Nil then show ?case by simp
next
  case (Cons a cols)
  then obtain x xs where "r = x # xs" by (cases r) auto
  with Cons show ?case by (auto simp: without_Cons)
qed

lemma without_snoc:
  "length r = length cols \<Longrightarrow> without c (cols @ [c]) (r @ [v]) = without c cols r"
  by (simp add: without_def)

lemma cell_snoc_same:
  "c \<notin> set cols \<Longrightarrow> length r = length cols \<Longrightarrow> cell (cols @ [c]) (r @ [v]) c = v"
proof (induction cols arbitrary: r)
  case Nil then show ?case by (simp add: cell_def)
next
  case (Cons a cols)
  then obtain x xs where "r = x # xs" by (cases r) auto
  with Cons show ?case by (auto simp: cell_Cons)
qed

lemma cell_snoc_other:
  "c' \<noteq> c \<Longrightarrow> length r = length cols \<Longrightarrow> cell (cols @ [c]) (r @ [v]) c' = cell cols r c'"
proof (induction cols arbitrary: r)
  case Nil then show ?case by (simp add: cell_def)
next
  case (Cons a cols)
  then obtain x xs where "r = x # xs" by (cases r) auto
  with Cons show ?case by (auto simp: cell_Cons)
qed

lemma cell_without:
  "c' \<noteq> c \<Longrightarrow> cell (filter (\<lambda>x. x \<noteq> c) cols) (without c cols r) c' = cell cols r c'"
proof (induction cols arbitrary: r)
  case Nil then show ?case by simp
next
  case (Cons a cols)
  show ?case
  proof (cases r)
    case Nil then show ?thesis by simp
  next
    case (Cons x xs)
    with Cons.IH Cons.prems show ?thesis by (auto simp: without_Cons cell_Cons)
  qed
qed

lemma cell_align: "c \<in> set cs \<Longrightarrow> cell cs (align cs cols r) c = cell cols r c"
  by (simp add: cell_def align_def map_of_zip_map)

lemma cell_align_absent: "c \<notin> set cs \<Longrightarrow> cell cs (align cs cols r) c = NaN"
  by (simp add: cell_def align_def map_of_zip_map)

lemma without_align:
  "without c cs (align cs cols r) = align (filter (\<lambda>x. x \<noteq> c) cs) cols r"
  by (induction cs) (simp_all add: without_def align_def)

lemma masked_map:
  "map snd (filter fst (zip (map P xs) (map g xs))) = map g (filter P xs)"
  by (induction xs) simp_all

lemma masked: "map snd (filter fst (zip (map P xs) xs)) = filter P xs"
  by (induction xs) simp_all

lemma find_append:
  "find P (xs @ ys) = (case find P xs of Some x \<Rightarrow> Some x | None \<Rightarrow> find P ys)"
  by (induction xs) simp_all

lemma find_filter:
  "(\<And>x. P x \<Longrightarrow> Q x) \<Longrightarrow> find P (filter Q xs) = find P xs"
  by (induction xs) auto

lemma set_keep_first: "set (keep_first key rs) \<subseteq> set rs"
  by (induction key rs rule: keep_first.induct) auto

lemma distinct_keep_first: "distinct (map key (keep_first key rs))"
proof (induction key rs rule: keep_first.induct)
  case (1 key) then show ?case by simp
next
  case (2 key r rs)
  have "key r \<notin> key ` set (keep_first key (filter (\<lambda>x. key x \<noteq> key r) rs))"
    using set_keep_first [of key "filter (\<lambda>x. key x \<noteq> key r) rs"] by auto
  with 2 show ?case by simp
qed

lemma find_keep_first:
  "find (\<lambda>x. key x = k) (keep_first key rs) = find (\<lambda>x. key x = k) rs"
proof (induction key rs rule: keep_first.induct)
  case (1 key) then show ?case by simp
next
  case (2 key r rs)
  show ?case
  proof (cases "key r = k")
    case True then show ?thesis by simp
  next
    case False
    then have "find (\<lambda>x. key x = k) (filter (\<lambda>x. key x \<noteq> key r) rs) = find (\<lambda>x. key x = k) rs"
      by (intro find_filter) auto
    with 2 False show ?thesis by simp
  qed
qed

lemma duplicated_keep_first:
  "map snd (filter fst (zip (map Not (duplicated seen (map key rs))) rs)) =
   keep_first key (filter (\<lambda>x. key x \<notin> set seen) rs)"
proof (induction rs arbitrary: seen)
  case Nil then show ?case by simp
next
  case (Cons r rs)
  show ?case
  proof (cases "key r \<in> set seen")
    case True
    then have "filter (\<lambda>x. key x \<noteq> key r \<and> key x \<notin> set seen) rs =
        filter (\<lambda>x. key x \<notin> set seen) rs"
      by (intro filter_cong) auto
    with Cons [of "key r # seen"] True show ?thesis by simp
  next
    case False
    have "filter (\<lambda>x. key x \<noteq> key r) (filter (\<lambda>x. key x \<notin> set seen) rs) =
        filter (\<lambda>x. key x \<notin> set (key r # seen)) rs"
      by (auto intro: filter_cong)
    with Cons [of "key r # seen"] False show ?thesis by simp
  qed
qed

lemma keep_first_map:
  "(\<And>x. x \<in> set xs \<Longrightarrow> key' (h x) = key x) \<Longrightarrow>
   map h (keep_first key xs) = keep_first key' (map h xs)"
proof (induction key xs rule: keep_first.induct)
  case (1 key) then show ?case by simp
next
  case (2 key r rs)
  have "filter (\<lambda>x. key' x \<noteq> key' (h r)) (map h rs) = map h (filter (\<lambda>x. key x \<noteq> key r) rs)"
    using 2(2) by (auto simp: filter_map comp_def intro!: arg_cong [where f = "map h"] filter_cong)
  with 2 show ?case by simp
qed

lemma collect_map_Inr:
  "collect (map f xs) = Inr ys \<Longrightarrow> (\<And>x y. f x = Inr y \<Longrightarrow> g x = y) \<Longrightarrow> ys = map g xs"
  by (induction xs arbitrary: ys) (auto split: sum.splits)

lemma stub_series_eq:
  assumes "stub_series df = Inr s"
  shows "s = map (\<lambda>r. Flag (stub_flag (cell (columns df) r ''LoC''))) (rows df)"
proof -
  from assms obtain bs where
    bs: "collect (map (le_scalar 1) (map (\<lambda>r. cell (columns df) r ''LoC'') (rows df))) = Inr bs"
    and s: "s = map Flag bs"
    by (auto simp: stub_series_def getitem_def split: sum.splits if_splits)
  have "bs = map stub_flag (map (\<lambda>r. cell (columns df) r ''LoC'') (rows df))"
    by (rule collect_map_Inr [OF bs]) (simp add: stub_flag_def)
  with s show ?thesis by (simp add: comp_def)
qed

lemma zip_map_same: "zip xs (map g xs) = map (\<lambda>x. (x, g x)) xs"
  by (induction xs) simp_all

lemma setitem_map:
  "setitem df c (map g (rows df)) =
     df\<lparr>columns := assigned_columns c (columns df),
        rows := map (\<lambda>r. assigned c (g r) (columns df) r) (rows df)\<rparr>"
  by (simp add: setitem_def assigned_columns_def assigned_def zip_map_same comp_def)

lemma cell_assigned_same:
  "length r = length cols \<Longrightarrow> cell (assigned_columns c cols) (assigned c v cols r) c = v"
  by (simp add: assigned_columns_def assigned_def cell_put_same cell_snoc_same)

lemma cell_assigned_other:
  "c' \<noteq> c \<Longrightarrow> length r = length cols \<Longrightarrow>
   cell (assigned_columns c cols) (assigned c v cols r) c' = cell cols r c'"
  by (simp add: assigned_columns_def assigned_def cell_put_other cell_snoc_other)

lemma without_assigned:
  "length r = length cols \<Longrightarrow>
   without c (assigned_columns c cols) (assigned c v cols r) = without c cols r"
  by (simp add: assigned_columns_def assigned_def without_put without_snoc)

lemma length_assigned:
  "length r = length cols \<Longrightarrow> length (assigned c v cols r) = length (assigned_columns c cols)"
  by (simp add: assigned_columns_def assigned_def length_put)


lemma wf_row_length: "wf_frame df \<Longrightarrow> r \<in> set (rows df) \<Longrightarrow> length r = length (columns df)"
  by (auto simp: wf_frame_def list_all_iff)

lemma in_assigned_columns: "c \<in> set (assigned_columns c cols)"
  by (simp add: assigned_columns_def)

lemma set_assigned_columns: "set (assigned_columns c cols) = insert c (set cols)"
  by (auto simp: assigned_columns_def)

lemma getitem_setitem_same:
  assumes "wf_frame df"
  shows "getitem (setitem df c (map g (rows df))) c = Inr (map g (rows df))"
proof -
  have "cell (assigned_columns c (columns df)) (assigned c (g r) (columns df) r) c = g r"
    if "r \<in> set (rows df)" for r
    using cell_assigned_same [OF wf_row_length [OF assms that]] .
  then show ?thesis
    by (simp add: getitem_def setitem_map in_assigned_columns comp_def)
qed

lemma getitem_setitem_other:
  assumes "wf_frame df" and "c' \<noteq> c"
  shows "getitem (setitem df c (map g (rows df))) c' = getitem df c'"
proof -
  have "cell (assigned_columns c (columns df)) (assigned c (g r) (columns df) r) c' =
      cell (columns df) r c'"
    if "r \<in> set (rows df)" for r
    using cell_assigned_other [OF assms(2) wf_row_length [OF assms(1) that]] .
  with assms(2) show ?thesis
    by (simp add: getitem_def setitem_map set_assigned_columns comp_def)
qed

lemma stub_assigned_setitem:
  assumes "wf_frame df" and "stub_series df = Inr s"
  shows "stub_assigned df (setitem df ''Stub'' s)"
  unfolding stub_assigned_def stub_series_eq [OF assms(2)]
  by (simp add: getitem_setitem_same [OF assms(1)] getitem_setitem_other [OF assms(1)]
      list_all_iff) (simp add: setitem_map)

lemma collect_map_all:
  "collect (map f xs) = Inr ys \<Longrightarrow> x \<in> set xs \<Longrightarrow> \<exists>y. f x = Inr y"
  by (induction xs arbitrary: ys) (auto split: sum.splits)

lemma rows_mask_rows_map:
  "rows (mask_rows (map P xs) (df\<lparr>rows := map g xs\<rparr>)) = map g (filter P xs)"
  by (simp add: mask_rows_def masked_map)

subsection \<open>Conversion of cells\<close>

lemma round53_small: "m < 2 ^ 53 \<Longrightarrow> round53 m = m"
  by (simp add: round53_def)

lemma to_float64_small: "\<bar>n\<bar> < 2 ^ 53 \<Longrightarrow> to_float64 n = n"
  by (simp add: to_float64_def round53_small)

lemma bitlen_lower: "0 < m \<Longrightarrow> 2 ^ (bitlen m - 1) \<le> m"
proof (induction m rule: bitlen.induct)
  case (1 n)
  show ?case
  proof (cases "n div 2 \<le> 0")
    case True
    with 1(2) have "n = 1" by linarith
    then show ?thesis by (simp add: bitlen.simps [of 1] bitlen.simps [of 0])
  next
    case False
    then have pos: "0 < n div 2" by simp
    from 1(1) [OF _ pos] 1(2) have ih: "2 ^ (bitlen (n div 2) - 1) \<le> n div 2" by simp
    from pos have b: "0 < bitlen (n div 2)" by (simp add: bitlen.simps [of "n div 2"])
    have "bitlen n = Suc (bitlen (n div 2))" using 1(2) by (simp add: bitlen.simps [of n])
    then have "(2::int) ^ (bitlen n - 1) = 2 * 2 ^ (bitlen (n div 2) - 1)"
      using b by (cases "bitlen (n div 2)") simp_all
    also have "\<dots> \<le> 2 * (n div 2)" using ih by simp
    also have "\<dots> \<le> n" by linarith
    finally show ?thesis .
  qed
qed

lemma bitlen_upper: "m < 2 ^ bitlen m"
proof (induction m rule: bitlen.induct)
  case (1 n)
  show ?case
  proof (cases "n \<le> 0")
    case True
    then have "n < 1" by simp
    also have "(1::int) \<le> 2 ^ bitlen n" by simp
    finally show ?thesis .
  next
    case False
    with 1 have ih: "n div 2 < 2 ^ bitlen (n div 2)" by simp
    from False have "bitlen n = Suc (bitlen (n div 2))" by (simp add: bitlen.simps [of n])
    moreover from ih have "n < 2 * 2 ^ bitlen (n div 2)" by linarith
    ultimately show ?thesis by simp
  qed
qed

lemma bitlen_large: "2 ^ 53 \<le> m \<Longrightarrow> 53 < bitlen m"
proof (rule ccontr)
  assume m: "2 ^ 53 \<le> m" and "\<not> 53 < bitlen m"
  then have "bitlen m \<le> 53" by simp
  then have "(2::int) ^ bitlen m \<le> 2 ^ 53" by (intro power_increasing) simp_all
  with bitlen_upper [of m] m show False by linarith
qed

lemma round53_large:
  assumes "2 ^ 53 \<le> m"
  shows "2 \<le> round53 m"
proof -
  define e where "e = bitlen m - 53"
  define q where "q = m div 2 ^ e"
  from bitlen_large [OF assms] have e: "1 \<le> e" and le: "e \<le> bitlen m - 1"
    by (simp_all add: e_def)
  from assms have pos: "0 < m" by (simp add: less_le_trans [of 0 "2 ^ 53"])
  have "(2::int) ^ e \<le> 2 ^ (bitlen m - 1)" using le by (intro power_increasing) simp_all
  with bitlen_lower [OF pos] have "2 ^ e \<le> m" by linarith
  then have q: "1 \<le> q"
    unfolding q_def by (metis div_by_1 div_self less_irrefl pos_imp_zdiv_pos_iff zdiv_mono1 zero_less_numeral zero_less_power zero_neq_numeral power_not_zero)
  from e have "(2::int) ^ 1 \<le> 2 ^ e" by (intro power_increasing) simp_all
  then have p2: "(2::int) \<le> 2 ^ e" by simp
  have a: "2 \<le> q * 2 ^ e"
    using q p2 by (metis mult_mono mult_1 zero_le_one order_trans zero_le_numeral)
  have "q * 2 ^ e \<le> (q + 1) * 2 ^ e"
    by (simp add: distrib_right)
  with a have b: "2 \<le> (q + 1) * 2 ^ e" by linarith
  from assms have "round53 m =
      (if 2 ^ (e - 1) < m mod 2 ^ e \<or> (m mod 2 ^ e = 2 ^ (e - 1) \<and> odd q) then q + 1 else q) * 2 ^ e"
    by (simp add: round53_def Let_def e_def [symmetric] q_def [symmetric])
  with a b show ?thesis by (simp split: if_splits)
qed

lemma to_float64_le_1: "(to_float64 n \<le> 1) = (n \<le> 1)"
proof (cases "\<bar>n\<bar> < 2 ^ 53")
  case True
  then show ?thesis by (simp add: to_float64_small)
next
  case False
  show ?thesis
  proof (cases "n < 0")
    case True
    with False have "2 ^ 53 \<le> - n" by simp
    from round53_large [OF this] True show ?thesis by (simp add: to_float64_def)
  next
    case False
    with \<open>\<not> \<bar>n\<bar> < 2 ^ 53\<close> have big: "2 ^ 53 \<le> n" by simp
    from round53_large [OF this] False big show ?thesis by (simp add: to_float64_def)
  qed
qed

lemma stub_flag_cast: "stub_flag (cast s t v) = stub_flag v"
  by (cases v) (simp_all add: cast_def stub_flag_def to_float64_le_1)

lemma cast_plain: "plain v \<Longrightarrow> cast s t v = v"
  by (cases v) (simp_all add: cast_def plain_def to_float64_small)

lemma numeric_plain: "plain v \<Longrightarrow> numeric v = v"
  by (cases v) (simp_all add: plain_def)

lemma cast_same: "cast s s v = v"
  by (cases v) (auto simp: cast_def)

lemma plain_cell: "list_all plain r \<Longrightarrow> plain (cell cols r c)"
proof (cases "map_of (zip cols r) c")
  case None
  then show ?thesis by (simp add: cell_def plain_def)
next
  case (Some v)
  assume "list_all plain r"
  moreover from Some have "v \<in> set r"
    by (meson map_of_SomeD set_zip_rightD)
  ultimately show ?thesis using Some by (simp add: cell_def list_all_iff)
qed

subsection \<open>The concatenation\<close>

lemma rows_pd_concat:
  "rows (pd_concat a b) =
     map (concat_row a b (columns (pd_concat a b)) a) (rows a) @
     map (concat_row a b (columns (pd_concat a b)) b) (rows b)"
  by (simp add: pd_concat_def Let_def)

lemma index_pd_concat: "index (pd_concat a b) = index a @ index b"
  by (simp add: pd_concat_def Let_def)

lemma length_rows_pd_concat: "length (rows (pd_concat a b)) = length (rows a) + length (rows b)"
  by (simp add: pd_concat_def Let_def)

lemma cell_concat_row:
  "c \<in> set cs \<Longrightarrow>
   cell cs (concat_row a b cs df r) c =
     cast (column_dtype df c) (result_dtype a b c) (cell (columns df) r c)"
  by (simp add: cell_def concat_row_def map_of_zip_map)

lemma without_concat_row:
  "without c cs (concat_row a b cs df r) = concat_row a b (filter (\<lambda>x. x \<noteq> c) cs) df r"
  by (induction cs) (simp_all add: without_def concat_row_def)

lemma concat_row_plain:
  "list_all plain r \<Longrightarrow> concat_row a b cs df r = align cs (columns df) r"
  by (simp add: concat_row_def align_def cast_plain plain_cell)

lemma rows_pd_concat_plain:
  assumes "plain_cells a" and "plain_cells b"
  shows "rows (pd_concat a b) =
     aligned_rows (columns (pd_concat a b)) a @ aligned_rows (columns (pd_concat a b)) b"
proof -
  have "map (concat_row a b cs df) (rows df) = aligned_rows cs df" if "plain_cells df" for cs df
    unfolding aligned_rows_def
    by (rule map_cong [OF refl]) (use that in \<open>simp add: concat_row_plain plain_cells_def list_all_iff\<close>)
  with assms show ?thesis by (simp add: rows_pd_concat)
qed

lemma plain_align: "list_all plain r \<Longrightarrow> list_all plain (align cs cols r)"
  by (simp add: align_def list_all_iff plain_cell)

subsection \<open>The removal of duplicates\<close>

lemma keep_first_cong:
  "(\<And>x y. x \<in> set xs \<Longrightarrow> y \<in> set xs \<Longrightarrow> (key x = key y) = (key' x = key' y)) \<Longrightarrow>
   keep_first key xs = keep_first key' xs"
proof (induction key xs rule: keep_first.induct)
  case (1 key)
  then show ?case by simp
next
  case (2 key r rs)
  have f: "filter (\<lambda>x. key x \<noteq> key r) rs = filter (\<lambda>x. key' x \<noteq> key' r) rs"
    by (rule filter_cong [OF refl]) (use 2(2) in auto)
  have "keep_first key (filter (\<lambda>x. key x \<noteq> key r) rs) =
      keep_first key' (filter (\<lambda>x. key x \<noteq> key r) rs)"
    by (rule 2(1)) (use 2(2) in auto)
  with f show ?case by simp
qed

lemma distinct_refined:
  "distinct (map (\<lambda>x. f (key x)) xs) \<Longrightarrow> distinct (map key xs)"
  by (induction xs) auto

lemma drop_duplicates_rows:
  assumes "drop_duplicates subs df = Inr R" and "columns df \<noteq> []"
  shows "columns R = columns df \<and>
         rows R = keep_first (\<lambda>r. map (\<lambda>c. numeric (cell (columns df) r c)) subs) (rows df)"
proof (cases "rows df = []")
  case True
  with assms show ?thesis by (simp add: drop_duplicates_def)
next
  case False
  with assms have R: "R = mask_rows (map Not (duplicated []
      (map (\<lambda>r. map (\<lambda>c. numeric (cell (columns df) r c)) subs) (rows df)))) df"
    by (auto simp: drop_duplicates_def split: list.splits if_splits)
  show ?thesis
    unfolding R mask_rows_def
    using duplicated_keep_first [of "[]" "\<lambda>r. map (\<lambda>c. numeric (cell (columns df) r c)) subs" "rows df"]
    by simp
qed

lemma dup_key_file_function:
  "(\<lambda>r. map (\<lambda>c. numeric (cell cs r c)) [''Source File'', ''Element'']) =
   (\<lambda>r. map numeric (dup_key FILE_FUNCTION cs r))"
  by (rule ext) simp

lemma dup_key_all_but_date:
  "(\<lambda>r. map (\<lambda>c. numeric (cell cs r c)) (filter (\<lambda>c. c \<noteq> date_column cs) cs)) =
   (\<lambda>r. map numeric (dup_key ALL_BUT_DATE cs r))"
  by (rule ext) (simp add: comp_def)

lemma merge_frames_keyed:
  assumes "snd (merge_frames X Y p) = Inr R"
    and "p = FILE_FUNCTION \<or> p = ALL_BUT_DATE"
    and "key_columns_present p (set (columns X) \<union> set (columns Y))"
  shows "columns R = columns (pd_concat X Y) \<and>
         index R = [0..<length (rows R)] \<and>
         rows R = keep_first (\<lambda>r. map numeric (dup_key p (columns R) r)) (rows (pd_concat X Y))"
proof -
  let ?C = "pd_concat X Y"
  from assms(2,3) have ne: "columns ?C \<noteq> []"
    using columns_pd_concat [of X Y] by (cases p) force+
  from assms(2) show ?thesis
  proof
    assume p: "p = FILE_FUNCTION"
    with assms(1) obtain D where D: "drop_duplicates [''Source File'', ''Element''] ?C = Inr D"
      and R: "R = reset_index D"
      by (auto simp: merge_frames_def Let_def split: sum.splits)
    from drop_duplicates_rows [OF D ne] R p show ?thesis
      by (simp add: reset_index_def dup_key_file_function)
  next
    assume p: "p = ALL_BUT_DATE"
    with assms(3) have present: "''Date'' \<in> set (columns ?C) \<or> ''Date / Version'' \<in> set (columns ?C)"
      using columns_pd_concat [of X Y] by simp
    with assms(1) p obtain D where
      D: "drop_duplicates (filter (\<lambda>c. c \<noteq> date_column (columns ?C)) (columns ?C)) ?C = Inr D"
      and R: "R = reset_index D"
      by (auto simp: merge_frames_def Let_def date_column_def split: sum.splits if_splits)
    from drop_duplicates_rows [OF D ne] R p show ?thesis
      by (simp add: reset_index_def dup_key_all_but_date)
  qed
qed

lemma merge_frames_stub:
  assumes "snd (merge_frames X Y FILE_FUNCTION_STUB) = Inr R"
  shows "columns R = filter (\<lambda>c. c \<noteq> ''Stub'') (columns (pd_concat X Y)) \<and>
         index R = [0..<length (rows R)] \<and>
         rows R = map (without ''Stub'' (columns (pd_concat X Y)))
           (keep_first (\<lambda>r. map (\<lambda>c. numeric (cell (columns (pd_concat X Y)) r c))
              [''Source File'', ''Element'', ''Stub'']) (rows (pd_concat X Y)))"
proof -
  let ?C = "pd_concat X Y"
  from assms obtain D D' where
    D: "drop_duplicates [''Source File'', ''Element'', ''Stub''] ?C = Inr D"
    and D': "drop_column ''Stub'' D = Inr D'" and R: "R = reset_index D'"
    by (auto simp: merge_frames_def Let_def split: sum.splits)
  from D' have stub: "''Stub'' \<in> set (columns D)"
    and D'_eq: "D' = D\<lparr>columns := filter (\<lambda>x. x \<noteq> ''Stub'') (columns D),
                      rows := map (without ''Stub'' (columns D)) (rows D)\<rparr>"
    by (auto simp: drop_column_def split: if_splits)
  have ne: "columns ?C \<noteq> []"
  proof
    assume "columns ?C = []"
    with D have "D = ?C" by (simp add: drop_duplicates_def)
    with stub \<open>columns ?C = []\<close> show False by simp
  qed
  from drop_duplicates_rows [OF D ne] D'_eq R show ?thesis
    by (simp add: reset_index_def)
qed

subsection \<open>The stub flag in the concatenation\<close>

lemma stubbed_without:
  assumes "wf_frame A"
  shows "map (without ''Stub'' cs')
           (aligned_rows cs' (setitem A ''Stub'' (map g (rows A)))) =
         aligned_rows (filter (\<lambda>c. c \<noteq> ''Stub'') cs') A"
proof -
  have "without ''Stub'' cs' (align cs' (assigned_columns ''Stub'' (columns A))
          (assigned ''Stub'' (g r) (columns A) r)) =
        align (filter (\<lambda>c. c \<noteq> ''Stub'') cs') (columns A) r"
    if "r \<in> set (rows A)" for r
  proof -
    from that assms have len: "length r = length (columns A)"
      by (auto simp: wf_frame_def list_all_iff)
    show ?thesis
      unfolding without_align
      by (auto simp: align_def cell_assigned_other [OF _ len])
  qed
  then show ?thesis
    by (simp add: aligned_rows_def setitem_map)
qed

lemma dtype_of_flags: "dtype_of (map (\<lambda>r. Flag (g r)) rs) = Bool"
  by (simp add: dtype_of_def list_all_iff is_flag_def)

lemma column_dtype_stubbed:
  assumes "wf_frame A"
  shows "column_dtype (setitem A ''Stub'' (map (\<lambda>r. Flag (g r)) (rows A))) ''Stub'' = Bool"
proof -
  let ?X = "setitem A ''Stub'' (map (\<lambda>r. Flag (g r)) (rows A))"
  from getitem_setitem_same [OF assms, of "''Stub''" "\<lambda>r. Flag (g r)"]
  have "map (\<lambda>r. cell (columns ?X) r ''Stub'') (rows ?X) = map (\<lambda>r. Flag (g r)) (rows A)"
    and "''Stub'' \<in> set (columns ?X)"
    by (auto simp: getitem_def split: if_splits)
  then show ?thesis
    by (simp add: column_dtype_def dtype_of_flags)
qed

lemma result_dtype_stubbed:
  assumes "wf_frame A" and "wf_frame B"
  shows "result_dtype (setitem A ''Stub'' (map (\<lambda>r. Flag (g r)) (rows A)))
           (setitem B ''Stub'' (map (\<lambda>r. Flag (h r)) (rows B))) ''Stub'' = Bool"
  by (simp add: result_dtype_def column_dtype_stubbed [OF assms(1)]
      column_dtype_stubbed [OF assms(2)] common_dtype_def)

lemma stubbed_flag:
  assumes "wf_frame A" and "''Stub'' \<in> set cs'" and "''LoC'' \<in> set cs'"
    and "result_dtype a b ''Stub'' = Bool"
    and "x \<in> set (map (concat_row a b cs'
            (setitem A ''Stub'' (map (\<lambda>r. Flag (stub_flag (cell (columns A) r ''LoC''))) (rows A))))
          (rows (setitem A ''Stub''
            (map (\<lambda>r. Flag (stub_flag (cell (columns A) r ''LoC''))) (rows A)))))"
  shows "cell cs' x ''Stub'' = Flag (stub_flag (cell cs' x ''LoC''))"
proof -
  let ?g = "\<lambda>r. stub_flag (cell (columns A) r ''LoC'')"
  let ?X = "setitem A ''Stub'' (map (\<lambda>r. Flag (?g r)) (rows A))"
  from assms(5) obtain r where r: "r \<in> set (rows A)"
    and x: "x = concat_row a b cs' ?X (assigned ''Stub'' (Flag (?g r)) (columns A) r)"
    by (auto simp: setitem_map)
  have colsX: "columns ?X = assigned_columns ''Stub'' (columns A)"
    by (simp add: setitem_map)
  from r assms(1) have len: "length r = length (columns A)"
    by (auto simp: wf_frame_def list_all_iff)
  have "cell cs' x ''Stub'' = cast Bool Bool (Flag (?g r))"
    unfolding x
    by (simp add: cell_concat_row [OF assms(2)] assms(4) column_dtype_stubbed [OF assms(1)]
        colsX cell_assigned_same [OF len])
  moreover have "cell cs' x ''LoC'' =
      cast (column_dtype ?X ''LoC'') (result_dtype a b ''LoC'') (cell (columns A) r ''LoC'')"
    unfolding x
    by (simp add: cell_concat_row [OF assms(3)] colsX cell_assigned_other [OF _ len])
  ultimately show ?thesis
    by (simp add: cast_same stub_flag_cast)
qed

lemma stubbed_plain:
  assumes "wf_frame A" and "plain_cells A" and "result_dtype a b ''Stub'' = Bool"
  shows "map (concat_row a b cs' (setitem A ''Stub'' (map (\<lambda>r. Flag (g r)) (rows A))))
           (rows (setitem A ''Stub'' (map (\<lambda>r. Flag (g r)) (rows A)))) =
         aligned_rows cs' (setitem A ''Stub'' (map (\<lambda>r. Flag (g r)) (rows A)))"
proof -
  let ?X = "setitem A ''Stub'' (map (\<lambda>r. Flag (g r)) (rows A))"
  have colsX: "columns ?X = assigned_columns ''Stub'' (columns A)"
    by (simp add: setitem_map)
  have "concat_row a b cs' ?X x = align cs' (columns ?X) x" if "x \<in> set (rows ?X)" for x
  proof -
    from that obtain r where r: "r \<in> set (rows A)"
      and x: "x = assigned ''Stub'' (Flag (g r)) (columns A) r"
      by (auto simp: setitem_map)
    from r assms(1) have len: "length r = length (columns A)"
      by (auto simp: wf_frame_def list_all_iff)
    from r assms(2) have pl: "list_all plain r"
      by (simp add: plain_cells_def list_all_iff)
    have "cast (column_dtype ?X c) (result_dtype a b c) (cell (columns ?X) x c) =
        cell (columns ?X) x c" for c
    proof (cases "c = ''Stub''")
      case True
      then show ?thesis
        by (simp add: assms(3) column_dtype_stubbed [OF assms(1)] cast_same)
    next
      case False
      then have "cell (columns ?X) x c = cell (columns A) r c"
        unfolding x colsX by (rule cell_assigned_other [OF _ len])
      with plain_cell [OF pl, of "columns A" c] show ?thesis
        by (simp add: cast_plain)
    qed
    then show ?thesis by (simp add: concat_row_def align_def)
  qed
  then show ?thesis by (simp add: aligned_rows_def)
qed

lemma stub_columns:
  "filter (\<lambda>c. c \<noteq> s) (assigned_columns s as @
      filter (\<lambda>c. c \<notin> set (assigned_columns s as)) (assigned_columns s bs)) =
   filter (\<lambda>c. c \<noteq> s) (as @ filter (\<lambda>c. c \<notin> set as) bs)"
  by (auto simp: assigned_columns_def intro: filter_cong)

subsection \<open>The rows that merge returns\<close>

lemma numeric_keys:
  assumes "list_all plain x" and "list_all plain y" and "p \<noteq> DONT_DROP_DUPLICATES"
  shows "(map numeric (dup_key p cs x) = map numeric (dup_key p cs y)) =
         (dup_key p cs x = dup_key p cs y)"
proof -
  have n: "numeric (cell cs r c) = cell cs r c" if "list_all plain r" for r c
    using that by (simp add: numeric_plain plain_cell)
  from assms(3) show ?thesis
    by (cases p) (simp_all add: n [OF assms(1)] n [OF assms(2)])
qed

lemma merge_stub_frames:
  assumes "returned (merge A B FILE_FUNCTION_STUB) = Inr R"
  shows "''LoC'' \<in> set (columns A) \<and>
         snd (merge_frames
                (setitem A ''Stub'' (map (\<lambda>r. Flag (stub_flag (cell (columns A) r ''LoC''))) (rows A)))
                (setitem B ''Stub'' (map (\<lambda>r. Flag (stub_flag (cell (columns B) r ''LoC''))) (rows B)))
                FILE_FUNCTION_STUB) = Inr R"
proof -
  from assms obtain s1 s2 where s1: "stub_series A = Inr s1"
    and s2: "stub_series B = Inr s2"
    and run: "snd (merge_frames (setitem A ''Stub'' s1) (setitem B ''Stub'' s2)
                FILE_FUNCTION_STUB) = Inr R"
    by (auto simp: merge_def Let_def split: sum.splits)
  from s1 have "''LoC'' \<in> set (columns A)"
    by (auto simp: stub_series_def getitem_def split: if_splits)
  with run show ?thesis
    by (simp add: stub_series_eq [OF s1] stub_series_eq [OF s2])
qed

lemma merge_stub_keys:
  assumes "wf_frame A" and "wf_frame B"
    and "returned (merge A B FILE_FUNCTION_STUB) = Inr R"
  defines "X \<equiv> setitem A ''Stub'' (map (\<lambda>r. Flag (stub_flag (cell (columns A) r ''LoC''))) (rows A))"
    and "Y \<equiv> setitem B ''Stub'' (map (\<lambda>r. Flag (stub_flag (cell (columns B) r ''LoC''))) (rows B))"
  shows "columns R = filter (\<lambda>c. c \<noteq> ''Stub'') (columns (pd_concat X Y)) \<and>
         index R = [0..<length (rows R)] \<and>
         rows R = map (without ''Stub'' (columns (pd_concat X Y)))
           (keep_first (\<lambda>x. map numeric (dup_key FILE_FUNCTION_STUB (columns R)
                (without ''Stub'' (columns (pd_concat X Y)) x)))
              (rows (pd_concat X Y)))"
proof -
  let ?cs' = "columns (pd_concat X Y)"
  let ?w = "without ''Stub'' ?cs'"
  from merge_stub_frames [OF assms(3)] have locA: "''LoC'' \<in> set (columns A)"
    and run: "snd (merge_frames X Y FILE_FUNCTION_STUB) = Inr R"
    by (simp_all add: X_def Y_def)
  have stub: "''Stub'' \<in> set ?cs'" and loc: "''LoC'' \<in> set ?cs'"
    using locA columns_pd_concat [of X Y]
    by (auto simp: X_def Y_def setitem_map assigned_columns_def)
  have rd: "result_dtype X Y ''Stub'' = Bool"
    unfolding X_def Y_def by (rule result_dtype_stubbed [OF assms(1,2)])
  from merge_frames_stub [OF run] have cols: "columns R = filter (\<lambda>c. c \<noteq> ''Stub'') ?cs'"
    and idx: "index R = [0..<length (rows R)]"
    and rws: "rows R = map ?w (keep_first (\<lambda>r. map (\<lambda>c. numeric (cell ?cs' r c))
        [''Source File'', ''Element'', ''Stub'']) (rows (pd_concat X Y)))"
    by simp_all
  have key: "(map numeric (dup_key FILE_FUNCTION_STUB (columns R) (?w x)) =
        map numeric (dup_key FILE_FUNCTION_STUB (columns R) (?w y))) =
      (map (\<lambda>c. numeric (cell ?cs' x c)) [''Source File'', ''Element'', ''Stub''] =
       map (\<lambda>c. numeric (cell ?cs' y c)) [''Source File'', ''Element'', ''Stub''])"
    if "x \<in> set (rows (pd_concat X Y))" and "y \<in> set (rows (pd_concat X Y))" for x y
  proof -
    have fl: "cell ?cs' z ''Stub'' = Flag (stub_flag (cell ?cs' z ''LoC''))"
      if "z \<in> set (rows (pd_concat X Y))" for z
    proof -
      from that have "z \<in> set (map (concat_row X Y ?cs' X) (rows X)) \<or>
          z \<in> set (map (concat_row X Y ?cs' Y) (rows Y))"
        by (simp add: rows_pd_concat)
      then show ?thesis
        using stubbed_flag [OF assms(1) stub loc rd, of z]
          stubbed_flag [OF assms(2) stub loc rd, of z]
        unfolding X_def Y_def by blast
    qed
    show ?thesis
      by (simp add: cols cell_without fl [OF that(1)] fl [OF that(2)])
  qed
  have "keep_first (\<lambda>r. map (\<lambda>c. numeric (cell ?cs' r c))
        [''Source File'', ''Element'', ''Stub'']) (rows (pd_concat X Y)) =
      keep_first (\<lambda>x. map numeric (dup_key FILE_FUNCTION_STUB (columns R) (?w x)))
        (rows (pd_concat X Y))"
    by (rule keep_first_cong) (simp only: key)
  with cols idx rws show ?thesis by simp
qed

lemma merge_distinct_keys:
  assumes "wf_frame A" and "wf_frame B"
    and "key_columns_present p (set (columns A) \<union> set (columns B))"
    and "returned (merge A B p) = Inr R"
    and "p \<noteq> DONT_DROP_DUPLICATES"
  shows "distinct (map (dup_key p (columns R)) (rows R))"
proof (cases "p = FILE_FUNCTION_STUB")
  case False
  with assms(5) have p: "p = FILE_FUNCTION \<or> p = ALL_BUT_DATE" by (cases p) auto
  from assms(4) False have "snd (merge_frames A B p) = Inr R"
    by (simp add: merge_def Let_def)
  from merge_frames_keyed [OF this p assms(3)]
  have "rows R = keep_first (\<lambda>r. map numeric (dup_key p (columns R) r)) (rows (pd_concat A B))"
    by simp
  then have "distinct (map (\<lambda>r. map numeric (dup_key p (columns R) r)) (rows R))"
    by (simp only: distinct_keep_first)
  then show ?thesis by (rule distinct_refined)
next
  case True
  let ?X = "setitem A ''Stub'' (map (\<lambda>r. Flag (stub_flag (cell (columns A) r ''LoC''))) (rows A))"
  let ?Y = "setitem B ''Stub'' (map (\<lambda>r. Flag (stub_flag (cell (columns B) r ''LoC''))) (rows B))"
  let ?w = "without ''Stub'' (columns (pd_concat ?X ?Y))"
  let ?k = "\<lambda>x. map numeric (dup_key FILE_FUNCTION_STUB (columns R) (?w x))"
  from merge_stub_keys [OF assms(1,2) assms(4) [unfolded True]]
  have rws: "rows R = map ?w (keep_first ?k (rows (pd_concat ?X ?Y)))"
    by simp
  have "distinct (map ?k (keep_first ?k (rows (pd_concat ?X ?Y))))"
    by (rule distinct_keep_first)
  then have "distinct (map (\<lambda>x. dup_key FILE_FUNCTION_STUB (columns R) (?w x))
      (keep_first ?k (rows (pd_concat ?X ?Y))))"
    by (rule distinct_refined)
  then show ?thesis
    unfolding True rws by (simp add: comp_def)
qed

lemma merge_rows_keep_first:
  assumes "wf_frame A" and "wf_frame B"
    and "plain_cells A" and "plain_cells B"
    and "key_columns_present p (set (columns A) \<union> set (columns B))"
    and "returned (merge A B p) = Inr R"
    and "p \<noteq> DONT_DROP_DUPLICATES"
  shows "columns R = merged_columns p A B \<and>
         index R = [0..<length (rows R)] \<and>
         rows R = keep_first (dup_key p (columns R))
           (aligned_rows (columns R) A @ aligned_rows (columns R) B)"
proof -
  let ?L = "aligned_rows (columns R) A @ aligned_rows (columns R) B"
  have plainL: "list_all plain x" if "x \<in> set ?L" for x
    using that assms(3,4)
    by (auto simp: aligned_rows_def plain_cells_def list_all_iff plain_align [unfolded list_all_iff])
  have cong: "keep_first (\<lambda>r. map numeric (dup_key p (columns R) r)) ?L =
      keep_first (dup_key p (columns R)) ?L"
    by (rule keep_first_cong) (rule numeric_keys [OF plainL plainL assms(7)])
  show ?thesis
  proof (cases "p = FILE_FUNCTION_STUB")
    case False
    with assms(7) have p: "p = FILE_FUNCTION \<or> p = ALL_BUT_DATE" by (cases p) auto
    from assms(6) False have "snd (merge_frames A B p) = Inr R"
      by (simp add: merge_def Let_def)
    from merge_frames_keyed [OF this p assms(5)]
    have cols: "columns R = columns (pd_concat A B)" and idx: "index R = [0..<length (rows R)]"
      and rws: "rows R =
        keep_first (\<lambda>r. map numeric (dup_key p (columns R) r)) (rows (pd_concat A B))"
      by simp_all
    from rws have "rows R = keep_first (\<lambda>r. map numeric (dup_key p (columns R) r)) ?L"
      by (simp add: rows_pd_concat_plain [OF assms(3,4)] cols)
    moreover from cols False have "columns R = merged_columns p A B"
      by (simp add: merged_columns_def pd_concat_def Let_def)
    ultimately show ?thesis using idx cong by simp
  next
    case True
    let ?X = "setitem A ''Stub'' (map (\<lambda>r. Flag (stub_flag (cell (columns A) r ''LoC''))) (rows A))"
    let ?Y = "setitem B ''Stub'' (map (\<lambda>r. Flag (stub_flag (cell (columns B) r ''LoC''))) (rows B))"
    let ?cs' = "columns (pd_concat ?X ?Y)"
    let ?w = "without ''Stub'' ?cs'"
    let ?k = "\<lambda>x. map numeric (dup_key FILE_FUNCTION_STUB (columns R) (?w x))"
    from merge_stub_keys [OF assms(1,2) assms(6) [unfolded True]]
    have cols: "columns R = filter (\<lambda>c. c \<noteq> ''Stub'') ?cs'"
      and idx: "index R = [0..<length (rows R)]"
      and rws: "rows R = map ?w (keep_first ?k (rows (pd_concat ?X ?Y)))"
      by simp_all
    have rd: "result_dtype ?X ?Y ''Stub'' = Bool"
      by (rule result_dtype_stubbed [OF assms(1,2)])
    have rowsC: "rows (pd_concat ?X ?Y) = aligned_rows ?cs' ?X @ aligned_rows ?cs' ?Y"
      by (simp add: rows_pd_concat stubbed_plain [OF assms(1,3) rd]
          stubbed_plain [OF assms(2,4) rd])
    have mapw: "map ?w (rows (pd_concat ?X ?Y)) = ?L"
      by (simp add: rowsC cols stubbed_without [OF assms(1)] stubbed_without [OF assms(2)])
    have "map ?w (keep_first ?k (rows (pd_concat ?X ?Y))) =
        keep_first (\<lambda>r. map numeric (dup_key FILE_FUNCTION_STUB (columns R) r))
          (map ?w (rows (pd_concat ?X ?Y)))"
      by (rule keep_first_map) simp
    with rws mapw cong True
    have "rows R = keep_first (dup_key p (columns R)) ?L" by simp
    moreover have "columns R = merged_columns p A B"
    proof -
      have "?cs' = assigned_columns ''Stub'' (columns A) @
          filter (\<lambda>c. c \<notin> set (assigned_columns ''Stub'' (columns A)))
            (assigned_columns ''Stub'' (columns B))"
        by (simp add: pd_concat_def Let_def setitem_map)
      then have "columns R = filter (\<lambda>c. c \<noteq> ''Stub'')
          (columns A @ filter (\<lambda>c. c \<notin> set (columns A)) (columns B))"
        unfolding cols by (simp only: stub_columns)
      then show ?thesis by (simp add: True merged_columns_def)
    qed
    ultimately show ?thesis using idx by simp
  qed
qed

lemma wf_stubA: "wf_frame stubA" and wf_stubB: "wf_frame stubB"
  by (simp_all add: wf_frame_def stubA_def stubB_def)

lemma plain_stubA: "plain_cells stubA" and plain_stubB: "plain_cells stubB"
  by (simp_all add: plain_cells_def plain_def stubA_def stubB_def)

lemma merge_stub_run: "returned (merge stubA stubB FILE_FUNCTION_STUB) = Inr bothKept"
  by code_simp

lemma merge_file_function_run: "returned (merge stubA stubB FILE_FUNCTION) = Inr firstKept"
  by code_simp

section \<open>Properties of merge\<close>

text \<open>
  C2, as the code has it. When \<^verbatim>\<open>ALL_BUT_DATE\<close> is requested and neither \<^verbatim>\<open>Date\<close> nor
  \<^verbatim>\<open>Date / Version\<close> is a column of either frame, \<^verbatim>\<open>merge\<close> raises nothing: it prints the
  line \<^verbatim>\<open>Error: Date column not found\<close>, leaves both arguments as they are and returns the
  concatenation of the first frame then the second, with a new index and all duplicates
  still in it.
\<close>

theorem merge_all_but_date_without_date_column:
  assumes "''Date'' \<notin> set (columns A) \<union> set (columns B)"
    and "''Date / Version'' \<notin> set (columns A) \<union> set (columns B)"
  shows "merge A B ALL_BUT_DATE =
    \<lparr>df1_after = A, df2_after = B, printed = [''Error: Date column not found''],
     returned = Inr (reset_index (pd_concat A B))\<rparr>"
  using assms columns_pd_concat [of A B] by (simp add: merge_def merge_frames_def Let_def)

theorem merge_all_but_date_without_date_column_witness:
  "''Date'' \<notin> set (columns undated) \<union> set (columns undated) \<and>
   ''Date / Version'' \<notin> set (columns undated) \<union> set (columns undated) \<and>
   merge undated undated ALL_BUT_DATE =
     \<lparr>df1_after = undated, df2_after = undated, printed = [''Error: Date column not found''],
      returned = Inr (reset_index (pd_concat undated undated))\<rparr>"
proof -
  have d: "''Date'' \<notin> set (columns undated) \<union> set (columns undated)"
    by (simp add: undated_def)
  have v: "''Date / Version'' \<notin> set (columns undated) \<union> set (columns undated)"
    by (simp add: undated_def)
  from merge_all_but_date_without_date_column [OF d v] d v show ?thesis by simp
qed

text \<open>
  C2, as it is stated, fails: on two copies of a one-row frame without a date column the
  call returns a frame (both copies of the row) and raises no exception.
\<close>

theorem merge_missing_date_column_is_no_error:
  "returned (merge undated undated ALL_BUT_DATE) =
     Inr \<lparr>columns = [''Source File'', ''Element''], index = [0, 1],
          rows = [[Str ''a.c'', Str ''g''], [Str ''a.c'', Str ''g'']]\<rparr> \<and>
   \<not> isl (returned (merge undated undated ALL_BUT_DATE))"
  by code_simp

text \<open>
  C8, as the code has it. For all frames \<open>A\<close> and \<open>B\<close>, \<^verbatim>\<open>merge(A, B, DONT_DROP_DUPLICATES)\<close>
  prints nothing, leaves both arguments as they are and returns a table with the columns
  of \<open>A\<close> followed by the columns only \<open>B\<close> has, exactly \<open>len(A) + len(B)\<close> rows and the
  index \<open>0, 1, 2, ...\<close> When the cells of both frames are plain (strings, missing values,
  integers below \<open>2^53\<close> in magnitude), its rows are the rows of \<open>A\<close> followed by the rows of
  \<open>B\<close> under these columns, a cell of a column the frame does not have being missing; when
  moreover both frames are well formed and have the same columns, they are the rows of
  \<open>A\<close> followed by the rows of \<open>B\<close> as they stand.
\<close>

theorem merge_keep_all_is_concatenation:
  "\<exists>R. merge A B DONT_DROP_DUPLICATES =
         \<lparr>df1_after = A, df2_after = B, printed = [], returned = Inr R\<rparr> \<and>
       columns R = merged_columns DONT_DROP_DUPLICATES A B \<and>
       index R = [0..<length (rows A) + length (rows B)] \<and>
       length (rows R) = length (rows A) + length (rows B) \<and>
       (plain_cells A \<and> plain_cells B \<longrightarrow>
          rows R = aligned_rows (columns R) A @ aligned_rows (columns R) B) \<and>
       (wf_frame A \<and> wf_frame B \<and> plain_cells A \<and> plain_cells B \<and> columns A = columns B \<longrightarrow>
          columns R = columns A \<and> rows R = rows A @ rows B)"
proof -
  let ?R = "reset_index (pd_concat A B)"
  have run: "merge A B DONT_DROP_DUPLICATES =
      \<lparr>df1_after = A, df2_after = B, printed = [], returned = Inr ?R\<rparr>"
    by (simp add: merge_def merge_frames_def)
  have cols: "columns ?R = merged_columns DONT_DROP_DUPLICATES A B"
    by (simp add: reset_index_def merged_columns_def pd_concat_def Let_def)
  have len: "length (rows ?R) = length (rows A) + length (rows B)"
    by (simp add: reset_index_def length_rows_pd_concat)
  have idx: "index ?R = [0..<length (rows A) + length (rows B)]"
    by (simp add: reset_index_def length_rows_pd_concat)
  have aligned: "rows ?R = aligned_rows (columns ?R) A @ aligned_rows (columns ?R) B"
    if "plain_cells A \<and> plain_cells B"
    using rows_pd_concat_plain [of A B] that by (simp add: reset_index_def)
  have same: "columns ?R = columns A \<and> rows ?R = rows A @ rows B"
    if h: "wf_frame A \<and> wf_frame B \<and> plain_cells A \<and> plain_cells B \<and> columns A = columns B"
  proof -
    from h have dA: "distinct (columns A)"
      and lA: "list_all (\<lambda>r. length r = length (columns A)) (rows A)"
      and lB: "list_all (\<lambda>r. length r = length (columns A)) (rows B)"
      and e: "columns B = columns A"
      by (auto simp add: wf_frame_def)
    have c: "columns ?R = columns A"
      by (simp add: reset_index_def pd_concat_def Let_def e)
    have "map (align (columns A) (columns A)) (rows A) = rows A"
      by (rule map_align_same [OF dA lA])
    moreover have "map (align (columns A) (columns A)) (rows B) = rows B"
      by (rule map_align_same [OF dA lB])
    ultimately have "aligned_rows (columns ?R) A @ aligned_rows (columns ?R) B = rows A @ rows B"
      by (simp add: aligned_rows_def c e)
    with aligned h c show ?thesis by simp
  qed
  from run cols len idx aligned same show ?thesis by blast
qed

theorem merge_keep_all_is_concatenation_witness:
  "wf_frame stubA \<and> wf_frame stubB \<and> plain_cells stubA \<and> plain_cells stubB \<and>
   columns stubA = columns stubB \<and>
   merge stubA stubB DONT_DROP_DUPLICATES =
     \<lparr>df1_after = stubA, df2_after = stubB, printed = [],
      returned = Inr \<lparr>columns = [''Source File'', ''Element'', ''LoC''], index = [0, 1],
          rows = [[Str ''x.c'', Str ''f'', Num 1], [Str ''x.c'', Str ''f'', Num 5]]\<rparr>\<rparr>"
proof -
  have w: "wf_frame stubA \<and> wf_frame stubB \<and> plain_cells stubA \<and> plain_cells stubB \<and>
      columns stubA = columns stubB"
    using wf_stubA wf_stubB plain_stubA plain_stubB by (simp add: stubA_def stubB_def)
  from merge_keep_all_is_concatenation [of stubA stubB] w obtain R where
    run: "merge stubA stubB DONT_DROP_DUPLICATES =
      \<lparr>df1_after = stubA, df2_after = stubB, printed = [], returned = Inr R\<rparr>"
    and idx: "index R = [0..<length (rows stubA) + length (rows stubB)]"
    and cols: "columns R = columns stubA" and rws: "rows R = rows stubA @ rows stubB"
    by blast
  have "[0..<length (rows stubA) + length (rows stubB)] = [0, 1]"
    by (simp add: stubA_def stubB_def upt_rec)
  with idx cols rws have "R = \<lparr>columns = [''Source File'', ''Element'', ''LoC''], index = [0, 1],
      rows = [[Str ''x.c'', Str ''f'', Num 1], [Str ''x.c'', Str ''f'', Num 5]]\<rparr>"
    by (cases R) (simp add: stubA_def stubB_def)
  with run w show ?thesis by simp
qed

text \<open>
  C8, as it is stated for all tables, fails: a table that holds the integer \<open>2^53 + 1\<close>,
  concatenated with a table that has a missing value in the same column, comes back with
  \<open>2^53\<close> in that cell, since the column has become \<^verbatim>\<open>float64\<close>. The returned rows are not
  the rows of the two tables.
\<close>

theorem merge_keep_all_rounds_wide_integer:
  "returned (merge wideCount noCount DONT_DROP_DUPLICATES) =
     Inr \<lparr>columns = [''Source File'', ''Element'', ''LoC''], index = [0, 1],
          rows = [[Str ''a.c'', Str ''f'', Num 9007199254740992],
                  [Str ''b.c'', Str ''g'', NaN]]\<rparr> \<and>
   rows wideCount @ rows noCount =
     [[Str ''a.c'', Str ''f'', Num 9007199254740993], [Str ''b.c'', Str ''g'', NaN]] \<and>
   wf_frame wideCount \<and> wf_frame noCount \<and> columns wideCount = columns noCount"
  by code_simp

text \<open>
  C9. With \<open>A\<close> the one-row frame (x.c, f, LoC 1) and \<open>B\<close> the one-row frame (x.c, f, LoC 5),
  \<^verbatim>\<open>merge(A, B, FILE_FUNCTION_STUB)\<close> gives \<open>A\<close> the column \<^verbatim>\<open>Stub\<close> with the value true
  (1 is at most 1) and \<open>B\<close> the column \<^verbatim>\<open>Stub\<close> with the value false (5 is not), so the two
  rows have the distinct keys (x.c, f, true) and (x.c, f, false), and it returns both rows,
  without the column \<^verbatim>\<open>Stub\<close>; \<^verbatim>\<open>merge(A, B, FILE_FUNCTION)\<close>, whose key is (x.c, f) for
  both rows, returns the row of \<open>A\<close> only.
\<close>

theorem merge_stub_scenario:
  "merge stubA stubB FILE_FUNCTION_STUB =
     \<lparr>df1_after = \<lparr>columns = [''Source File'', ''Element'', ''LoC'', ''Stub''], index = [0],
                   rows = [[Str ''x.c'', Str ''f'', Num 1, Flag True]]\<rparr>,
      df2_after = \<lparr>columns = [''Source File'', ''Element'', ''LoC'', ''Stub''], index = [0],
                   rows = [[Str ''x.c'', Str ''f'', Num 5, Flag False]]\<rparr>,
      printed = [],
      returned = Inr \<lparr>columns = [''Source File'', ''Element'', ''LoC''], index = [0, 1],
          rows = [[Str ''x.c'', Str ''f'', Num 1], [Str ''x.c'', Str ''f'', Num 5]]\<rparr>\<rparr> \<and>
   stub_series stubA = Inr [Flag True] \<and>
   stub_series stubB = Inr [Flag False] \<and>
   map (dup_key FILE_FUNCTION_STUB [''Source File'', ''Element'', ''LoC''])
     [[Str ''x.c'', Str ''f'', Num 1], [Str ''x.c'', Str ''f'', Num 5]] =
     [[Str ''x.c'', Str ''f'', Flag True], [Str ''x.c'', Str ''f'', Flag False]] \<and>
   map (dup_key FILE_FUNCTION [''Source File'', ''Element'', ''LoC''])
     [[Str ''x.c'', Str ''f'', Num 1], [Str ''x.c'', Str ''f'', Num 5]] =
     [[Str ''x.c'', Str ''f''], [Str ''x.c'', Str ''f'']] \<and>
   merge stubA stubB FILE_FUNCTION =
     \<lparr>df1_after = stubA, df2_after = stubB, printed = [],
      returned = Inr \<lparr>columns = [''Source File'', ''Element'', ''LoC''], index = [0],
          rows = [[Str ''x.c'', Str ''f'', Num 1]]\<rparr>\<rparr>"
  by code_simp

text \<open>
  C1, as the code has it. Let \<open>A\<close> and \<open>B\<close> be well-formed tables with plain cells
  (strings, missing values, integers below \<open>2^53\<close> in magnitude) that between them have the
  columns the key of the policy is made of (for \<^verbatim>\<open>ALL_BUT_DATE\<close>: a column \<^verbatim>\<open>Date\<close> or
  \<^verbatim>\<open>Date / Version\<close>), and let \<^verbatim>\<open>merge(A, B, policy)\<close> return a table. Its columns are
  the columns of \<open>A\<close> followed by the columns only \<open>B\<close> has (without \<^verbatim>\<open>Stub\<close> under the stub
  policy), its index is \<open>0, 1, 2, ...\<close>, and its rows are the rows of \<open>A\<close> then the rows of
  \<open>B\<close> under these columns; under \<^verbatim>\<open>DONT_DROP_DUPLICATES\<close> all of them, under the other
  policies with the duplicates removed and the first occurrence kept. So, for every key,
  the retained row with that key is the first such row of \<open>A\<close> if \<open>A\<close> has one, and else the
  first such row of \<open>B\<close>.
\<close>

theorem merge_keeps_first_occurrence:
  assumes "wf_frame A" and "wf_frame B"
    and "plain_cells A" and "plain_cells B"
    and "key_columns_present p (set (columns A) \<union> set (columns B))"
    and "returned (merge A B p) = Inr R"
  shows "columns R = merged_columns p A B \<and>
    index R = [0..<length (rows R)] \<and>
    rows R =
      (if p = DONT_DROP_DUPLICATES
       then aligned_rows (columns R) A @ aligned_rows (columns R) B
       else keep_first (dup_key p (columns R))
              (aligned_rows (columns R) A @ aligned_rows (columns R) B)) \<and>
    (p \<noteq> DONT_DROP_DUPLICATES \<longrightarrow>
       (\<forall>k. find (\<lambda>r. dup_key p (columns R) r = k) (rows R) =
          (case find (\<lambda>r. dup_key p (columns R) r = k) (aligned_rows (columns R) A) of
             Some r \<Rightarrow> Some r
           | None \<Rightarrow> find (\<lambda>r. dup_key p (columns R) r = k) (aligned_rows (columns R) B))))"
proof (cases "p = DONT_DROP_DUPLICATES")
  case True
  with assms(6) have R: "R = reset_index (pd_concat A B)"
    by (simp add: merge_def merge_frames_def)
  then have "rows R = aligned_rows (columns R) A @ aligned_rows (columns R) B"
    using rows_pd_concat_plain [OF assms(3,4)] by (simp add: reset_index_def)
  moreover from R have "columns R = merged_columns p A B"
    by (simp add: True reset_index_def merged_columns_def pd_concat_def Let_def)
  moreover from R have "index R = [0..<length (rows R)]"
    by (simp add: reset_index_def)
  ultimately show ?thesis using True by simp
next
  case False
  from merge_rows_keep_first [OF assms False]
  have cols: "columns R = merged_columns p A B" and idx: "index R = [0..<length (rows R)]"
    and kept: "rows R = keep_first (dup_key p (columns R))
      (aligned_rows (columns R) A @ aligned_rows (columns R) B)"
    by simp_all
  have "find (\<lambda>r. dup_key p (columns R) r = k) (rows R) =
      (case find (\<lambda>r. dup_key p (columns R) r = k) (aligned_rows (columns R) A) of
         Some r \<Rightarrow> Some r
       | None \<Rightarrow> find (\<lambda>r. dup_key p (columns R) r = k) (aligned_rows (columns R) B))" for k
  proof -
    have "find (\<lambda>r. dup_key p (columns R) r = k) (rows R) =
        find (\<lambda>r. dup_key p (columns R) r = k)
          (aligned_rows (columns R) A @ aligned_rows (columns R) B)"
      by (subst kept) (rule find_keep_first)
    then show ?thesis by (simp add: find_append)
  qed
  with cols idx kept False show ?thesis by simp
qed

theorem merge_keeps_first_occurrence_witness:
  "wf_frame stubA \<and> wf_frame stubB \<and> plain_cells stubA \<and> plain_cells stubB \<and>
   key_columns_present FILE_FUNCTION (set (columns stubA) \<union> set (columns stubB)) \<and>
   returned (merge stubA stubB FILE_FUNCTION) = Inr firstKept \<and>
   columns firstKept = merged_columns FILE_FUNCTION stubA stubB \<and>
   merged_columns FILE_FUNCTION stubA stubB = [''Source File'', ''Element'', ''LoC''] \<and>
   index firstKept = [0..<length (rows firstKept)] \<and>
   rows firstKept =
     keep_first (dup_key FILE_FUNCTION (columns firstKept))
       (aligned_rows (columns firstKept) stubA @ aligned_rows (columns firstKept) stubB) \<and>
   rows firstKept = rows stubA"
proof -
  have k: "key_columns_present FILE_FUNCTION (set (columns stubA) \<union> set (columns stubB))"
    by (simp add: stubA_def)
  from merge_keeps_first_occurrence [OF wf_stubA wf_stubB plain_stubA plain_stubB k
      merge_file_function_run]
  have "columns firstKept = merged_columns FILE_FUNCTION stubA stubB"
    and "index firstKept = [0..<length (rows firstKept)]"
    and "rows firstKept =
     keep_first (dup_key FILE_FUNCTION (columns firstKept))
       (aligned_rows (columns firstKept) stubA @ aligned_rows (columns firstKept) stubB)"
    by simp_all
  moreover have "rows firstKept = rows stubA"
    by (simp add: firstKept_def stubA_def)
  moreover have "merged_columns FILE_FUNCTION stubA stubB = [''Source File'', ''Element'', ''LoC'']"
    by (simp add: merged_columns_def stubA_def stubB_def)
  ultimately show ?thesis
    using wf_stubA wf_stubB plain_stubA plain_stubB k merge_file_function_run by simp
qed

text \<open>
  C1, as it is stated for every pair of tables and every policy, fails. Under
  \<^verbatim>\<open>ALL_BUT_DATE\<close>, on tables without a date column, the row of the second table that
  collides with the row of the first is retained as well, whereas removing the duplicates
  would leave two rows. And under \<^verbatim>\<open>FILE_FUNCTION\<close>, the row retained for the key
  (a.c, f) of a table that holds the integer \<open>2^53 + 1\<close> is not that row but the row with
  \<open>2^53\<close>, when the other table has a missing value in the same column.
\<close>

theorem merge_all_but_date_keeps_colliding_row:
  "returned (merge undated undatedB ALL_BUT_DATE) =
     Inr \<lparr>columns = [''Source File'', ''Element''], index = [0, 1, 2],
          rows = [[Str ''a.c'', Str ''g''], [Str ''a.c'', Str ''g''], [Str ''b.c'', Str ''h'']]\<rparr> \<and>
   keep_first (dup_key ALL_BUT_DATE [''Source File'', ''Element''])
     (rows undated @ rows undatedB) = [[Str ''a.c'', Str ''g''], [Str ''b.c'', Str ''h'']] \<and>
   returned (merge wideCount noCount FILE_FUNCTION) =
     Inr \<lparr>columns = [''Source File'', ''Element'', ''LoC''], index = [0, 1],
          rows = [[Str ''a.c'', Str ''f'', Num 9007199254740992],
                  [Str ''b.c'', Str ''g'', NaN]]\<rparr> \<and>
   rows wideCount = [[Str ''a.c'', Str ''f'', Num 9007199254740993]]"
  by code_simp

text \<open>
  C3, as the code has it. Let \<open>A\<close> and \<open>B\<close> be well-formed tables that between them have
  the columns the key of the policy is made of (for \<^verbatim>\<open>ALL_BUT_DATE\<close>: a column \<^verbatim>\<open>Date\<close>
  or \<^verbatim>\<open>Date / Version\<close>). Under each of the policies \<^verbatim>\<open>FILE_FUNCTION\<close>,
  \<^verbatim>\<open>FILE_FUNCTION_STUB\<close> and \<^verbatim>\<open>ALL_BUT_DATE\<close>, no two rows of the table that
  \<^verbatim>\<open>merge(A, B, policy)\<close> returns have the same duplicate key.
\<close>

theorem merge_result_has_distinct_keys:
  assumes "wf_frame A" and "wf_frame B"
    and "key_columns_present p (set (columns A) \<union> set (columns B))"
    and "returned (merge A B p) = Inr R"
    and "p \<noteq> DONT_DROP_DUPLICATES"
  shows "distinct (map (dup_key p (columns R)) (rows R))"
  by (rule merge_distinct_keys [OF assms])

theorem merge_result_has_distinct_keys_witness:
  "wf_frame stubA \<and> wf_frame stubB \<and>
   key_columns_present FILE_FUNCTION_STUB (set (columns stubA) \<union> set (columns stubB)) \<and>
   returned (merge stubA stubB FILE_FUNCTION_STUB) = Inr bothKept \<and>
   distinct (map (dup_key FILE_FUNCTION_STUB (columns bothKept)) (rows bothKept)) \<and>
   map (dup_key FILE_FUNCTION_STUB (columns bothKept)) (rows bothKept) =
     [[Str ''x.c'', Str ''f'', Flag True], [Str ''x.c'', Str ''f'', Flag False]]"
proof -
  have k: "key_columns_present FILE_FUNCTION_STUB (set (columns stubA) \<union> set (columns stubB))"
    by (simp add: stubA_def)
  have p: "FILE_FUNCTION_STUB \<noteq> DONT_DROP_DUPLICATES" by simp
  have "map (dup_key FILE_FUNCTION_STUB (columns bothKept)) (rows bothKept) =
     [[Str ''x.c'', Str ''f'', Flag True], [Str ''x.c'', Str ''f'', Flag False]]"
    by (simp add: bothKept_def cell_def stub_flag_def)
  with merge_result_has_distinct_keys [OF wf_stubA wf_stubB k merge_stub_run p]
  show ?thesis
    using wf_stubA wf_stubB k merge_stub_run by simp
qed

text \<open>
  C3, as it is stated for every pair of tables, fails: under \<^verbatim>\<open>ALL_BUT_DATE\<close>, a table
  without a date column merged with itself comes back with both copies of its row, which
  have the same key.
\<close>

theorem merge_all_but_date_returns_equal_keys:
  "returned (merge stubA stubA ALL_BUT_DATE) =
     Inr \<lparr>columns = [''Source File'', ''Element'', ''LoC''], index = [0, 1],
          rows = [[Str ''x.c'', Str ''f'', Num 1], [Str ''x.c'', Str ''f'', Num 1]]\<rparr> \<and>
   \<not> distinct (map (dup_key ALL_BUT_DATE [''Source File'', ''Element'', ''LoC''])
                 [[Str ''x.c'', Str ''f'', Num 1], [Str ''x.c'', Str ''f'', Num 1]])"
  by code_simp

text \<open>
  C7, as the code has it. On well-formed tables, \<^verbatim>\<open>merge\<close> under \<^verbatim>\<open>FILE_FUNCTION\<close>,
  \<^verbatim>\<open>ALL_BUT_DATE\<close> and \<^verbatim>\<open>DONT_DROP_DUPLICATES\<close> leaves both arguments as they are.
  Under \<^verbatim>\<open>FILE_FUNCTION_STUB\<close> a call that returns has assigned the column \<^verbatim>\<open>Stub\<close>,
  holding \<^verbatim>\<open>LoC <= 1\<close>, in place in both arguments, whose index and other columns are as
  before; the returned table has no column \<^verbatim>\<open>Stub\<close>.
\<close>

theorem merge_effect_on_arguments:
  assumes "wf_frame A" and "wf_frame B"
  shows "(mergeType \<noteq> FILE_FUNCTION_STUB \<longrightarrow>
            df1_after (merge A B mergeType) = A \<and> df2_after (merge A B mergeType) = B) \<and>
         (\<forall>R. returned (merge A B FILE_FUNCTION_STUB) = Inr R \<longrightarrow>
            stub_assigned A (df1_after (merge A B FILE_FUNCTION_STUB)) \<and>
            stub_assigned B (df2_after (merge A B FILE_FUNCTION_STUB)) \<and>
            ''Stub'' \<notin> set (columns R))"
proof -
  have "df1_after (merge A B mergeType) = A \<and> df2_after (merge A B mergeType) = B"
    if "mergeType \<noteq> FILE_FUNCTION_STUB"
    using that by (simp add: merge_def Let_def)
  moreover have "stub_assigned A (df1_after (merge A B FILE_FUNCTION_STUB)) \<and>
      stub_assigned B (df2_after (merge A B FILE_FUNCTION_STUB)) \<and> ''Stub'' \<notin> set (columns R)"
    if "returned (merge A B FILE_FUNCTION_STUB) = Inr R" for R
  proof -
    from that obtain s1 s2 where s1: "stub_series A = Inr s1" and s2: "stub_series B = Inr s2"
      and run: "snd (merge_frames (setitem A ''Stub'' s1) (setitem B ''Stub'' s2)
                  FILE_FUNCTION_STUB) = Inr R"
      by (auto simp: merge_def Let_def split: sum.splits)
    from s1 s2 have "df1_after (merge A B FILE_FUNCTION_STUB) = setitem A ''Stub'' s1"
      and "df2_after (merge A B FILE_FUNCTION_STUB) = setitem B ''Stub'' s2"
      by (simp_all add: merge_def Let_def)
    moreover from merge_frames_stub [OF run] have "''Stub'' \<notin> set (columns R)" by simp
    ultimately show ?thesis
      using stub_assigned_setitem [OF assms(1) s1] stub_assigned_setitem [OF assms(2) s2]
      by simp
  qed
  ultimately show ?thesis by blast
qed

theorem merge_effect_on_arguments_witness:
  "wf_frame stubA \<and> wf_frame stubB \<and>
   returned (merge stubA stubB FILE_FUNCTION_STUB) = Inr bothKept \<and>
   stub_assigned stubA (df1_after (merge stubA stubB FILE_FUNCTION_STUB)) \<and>
   stub_assigned stubB (df2_after (merge stubA stubB FILE_FUNCTION_STUB)) \<and>
   ''Stub'' \<notin> set (columns bothKept) \<and>
   df1_after (merge stubA stubB FILE_FUNCTION) = stubA \<and>
   df2_after (merge stubA stubB FILE_FUNCTION) = stubB"
  using merge_effect_on_arguments [OF wf_stubA wf_stubB, of FILE_FUNCTION]
    wf_stubA wf_stubB merge_stub_run
  by simp

text \<open>
  C7, as it is stated for every policy, fails: after \<^verbatim>\<open>merge(A, B, FILE_FUNCTION_STUB)\<close>
  on the tables of the stub scenario both arguments have the additional column
  \<^verbatim>\<open>Stub\<close>.
\<close>

theorem merge_stub_changes_its_arguments:
  "df1_after (merge stubA stubB FILE_FUNCTION_STUB) =
     \<lparr>columns = [''Source File'', ''Element'', ''LoC'', ''Stub''], index = [0],
      rows = [[Str ''x.c'', Str ''f'', Num 1, Flag True]]\<rparr> \<and>
   df2_after (merge stubA stubB FILE_FUNCTION_STUB) =
     \<lparr>columns = [''Source File'', ''Element'', ''LoC'', ''Stub''], index = [0],
      rows = [[Str ''x.c'', Str ''f'', Num 5, Flag False]]\<rparr> \<and>
   df1_after (merge stubA stubB FILE_FUNCTION_STUB) \<noteq> stubA \<and>
   df2_after (merge stubA stubB FILE_FUNCTION_STUB) \<noteq> stubB"
  by (simp add: merge_def Let_def stubA_def stubB_def stub_series_def getitem_def cell_def
      setitem_def)

section \<open>Facts about the loop of filterByDiff\<close>

lemma map2_mask:
  "map2 f (map P xs) xs = map (\<lambda>x. f (P x) x) xs"
  by (induction xs) simp_all

lemma masked_labels:
  "map snd (filter fst (zip (map P xs) ys)) = map snd (filter (\<lambda>p. P (fst p)) (zip xs ys))"
proof (induction xs arbitrary: ys)
  case Nil
  then show ?case by simp
next
  case (Cons x xs)
  then show ?case by (cases ys) simp_all
qed

lemma entry_matches_file:
  "suffix ''.c'' file \<or> suffix ''.h'' file \<Longrightarrow> entry_matches (Str file) v = (v = Str file)"
  by (cases v) auto

lemma collect_strings:
  "list_all is_str vs \<Longrightarrow>
   collect (map (\<lambda>v. case v of Str s \<Rightarrow> Inr (prefix p s) | _ \<Rightarrow> Inl ValueError) vs) =
     Inr (map (\<lambda>v. case v of Str s \<Rightarrow> prefix p s | _ \<Rightarrow> False) vs)"
  by (induction vs) (auto simp: is_str_def split: val.splits)

lemma str_startswith_strings:
  assumes "list_all is_str vs" and "\<not> (suffix ''.c'' p \<or> suffix ''.h'' p)"
  shows "str_startswith p vs = Inr (map (entry_matches (Str p)) vs)"
proof -
  have guard: "\<not> (vs \<noteq> [] \<and> list_all (\<lambda>v. \<not> is_str v) vs)"
    using assms(1) by (cases vs) auto
  have "(case v of Str s \<Rightarrow> prefix p s | _ \<Rightarrow> False) = entry_matches (Str p) v" for v
    using assms(2) by (cases v) auto
  then have "map (\<lambda>v. case v of Str s \<Rightarrow> prefix p s | _ \<Rightarrow> False) vs =
      map (entry_matches (Str p)) vs"
    by simp
  with guard collect_strings [OF assms(1), of p] show ?thesis
    by (simp add: str_startswith_def)
qed

lemma mark_edited_total:
  assumes "''File'' \<in> set dcols"
    and "list_all (\<lambda>e. is_str (cell dcols e ''File'')) es"
    and "''Source File'' \<in> set (columns df)"
    and "list_all (\<lambda>r. is_str (cell (columns df) r ''Source File'')) (rows df)"
  shows "mark_edited dcols es df =
     (df\<lparr>rows := map (\<lambda>r. if matched (map (\<lambda>e. cell dcols e ''File'') es) (columns df) r
                          then put ''Edited'' (Flag True) (columns df) r else r) (rows df)\<rparr>,
      None)"
  using assms(2-)
proof (induction es arbitrary: df)
  case Nil
  then show ?case by (simp add: matched_def)
next
  case (Cons e es)
  let ?cols = "columns df"
  let ?M = "\<lambda>r. entry_matches (cell dcols e ''File'') (cell ?cols r ''Source File'')"
  let ?df1 = "loc_set (map ?M (rows df)) ''Edited'' (Flag True) df"
  let ?sf = "map (\<lambda>r. cell ?cols r ''Source File'') (rows df)"
  from Cons.prems(1) obtain path where path: "cell dcols e ''File'' = Str path"
    by (cases "cell dcols e ''File''") (simp_all add: is_str_def)
  from Cons.prems(1) have rest: "list_all (\<lambda>e. is_str (cell dcols e ''File'')) es"
    by simp
  have sf: "getitem df ''Source File'' = Inr ?sf"
    using Cons.prems(2) by (simp add: getitem_def)
  have strs: "list_all is_str ?sf"
    using Cons.prems(3) by (simp add: list_all_iff)
  have step: "mark_edited dcols (e # es) df = mark_edited dcols es ?df1"
  proof (cases "suffix ''.c'' path \<or> suffix ''.h'' path")
    case True
    have eq: "map (\<lambda>v. v = Str path) ?sf = map ?M (rows df)"
      by (simp add: path entry_matches_file [OF True])
    have "mark_edited dcols (e # es) df =
        mark_edited dcols es (loc_set (map (\<lambda>v. v = Str path) ?sf) ''Edited'' (Flag True) df)"
      using True by (simp add: assms(1) path sf)
    then show ?thesis by (simp only: eq)
  next
    case False
    from str_startswith_strings [OF strs False]
    have m: "str_startswith path ?sf = Inr (map ?M (rows df))"
      by (simp add: path comp_def)
    show ?thesis
      using False by (simp add: assms(1) path sf m)
  qed
  have rows1: "rows ?df1 =
      map (\<lambda>r. if ?M r then put ''Edited'' (Flag True) ?cols r else r) (rows df)"
    by (simp add: loc_set_def map2_mask)
  have cols1: "columns ?df1 = ?cols"
    by (simp add: loc_set_def)
  have src1: "''Source File'' \<in> set (columns ?df1)"
    using Cons.prems(2) by (simp add: cols1)
  have strs1: "list_all (\<lambda>r. is_str (cell (columns ?df1) r ''Source File'')) (rows ?df1)"
    using Cons.prems(3) by (auto simp: cols1 rows1 list_all_iff cell_put_other)
  have comb: "(if matched (map (\<lambda>e. cell dcols e ''File'') es) ?cols
             (if ?M x then put ''Edited'' (Flag True) ?cols x else x)
         then put ''Edited'' (Flag True) ?cols
                (if ?M x then put ''Edited'' (Flag True) ?cols x else x)
         else (if ?M x then put ''Edited'' (Flag True) ?cols x else x)) =
        (if matched (map (\<lambda>e. cell dcols e ''File'') (e # es)) ?cols x
         then put ''Edited'' (Flag True) ?cols x else x)" for x
    by (simp add: matched_def cell_put_other put_put)
  have "mark_edited dcols es ?df1 =
      (?df1\<lparr>rows := map (\<lambda>r. if matched (map (\<lambda>e. cell dcols e ''File'') es) ?cols r
                          then put ''Edited'' (Flag True) ?cols r else r) (rows ?df1)\<rparr>, None)"
    using Cons.IH [OF rest src1 strs1] by (simp only: cols1)
  also have "?df1\<lparr>rows := map (\<lambda>r. if matched (map (\<lambda>e. cell dcols e ''File'') es) ?cols r
                          then put ''Edited'' (Flag True) ?cols r else r) (rows ?df1)\<rparr> =
      df\<lparr>rows := map (\<lambda>r. if matched (map (\<lambda>e. cell dcols e ''File'') (e # es)) ?cols r
                          then put ''Edited'' (Flag True) ?cols r else r) (rows df)\<rparr>"
    unfolding rows1 map_map comp_def comb by (simp add: loc_set_def)
  finally show ?case using step by simp
qed

lemma select_modified_total:
  assumes "''Modified'' \<in> set (columns diff)"
  shows "\<exists>diff'. (case modifiedFlags of None \<Rightarrow> Inr diff
                                        | Some flags \<Rightarrow> select_modified flags diff) = Inr diff' \<and>
           columns diff' = columns diff \<and> set (rows diff') \<subseteq> set (rows diff) \<and>
           map (\<lambda>e. cell (columns diff) e ''File'') (rows diff') = manifest_paths modifiedFlags diff"
proof (cases modifiedFlags)
  case None
  then show ?thesis by (simp add: manifest_paths_def)
next
  case (Some flags)
  let ?d = "mask_rows
      (map (\<lambda>v. v \<in> set flags) (map (\<lambda>r. cell (columns diff) r ''Modified'') (rows diff))) diff"
  have sel: "select_modified flags diff = Inr ?d"
    using assms by (simp add: select_modified_def getitem_def)
  have "columns ?d = columns diff"
    and r: "rows ?d = filter (\<lambda>e. cell (columns diff) e ''Modified'' \<in> set flags) (rows diff)"
    by (simp_all add: mask_rows_def comp_def masked)
  with Some sel show ?thesis by (simp add: manifest_paths_def)
qed

section \<open>Properties of filterByDiff\<close>

text \<open>
  C5. Let the table \<open>df\<close> be well formed with a column \<^verbatim>\<open>Source File\<close> of strings, and let
  the manifest be read and have a column \<^verbatim>\<open>File\<close> of strings and a column \<^verbatim>\<open>Modified\<close>.
  Then lines 123 to 146 of \<^verbatim>\<open>filterByDiff\<close> raise nothing and yield the table of exactly
  the rows of \<open>df\<close>, with their labels, that at least one manifest entry (of those with an
  allowed flag, when flags are given) matches: an entry that ends in \<^verbatim>\<open>.c\<close> or \<^verbatim>\<open>.h\<close>
  matches a row when it equals the row's \<^verbatim>\<open>Source File\<close>, any other entry when the row's
  \<^verbatim>\<open>Source File\<close> starts with it. Every other row is dropped. The auxiliary column
  \<^verbatim>\<open>Edited\<close> is not part of the result.
\<close>

theorem diff_filter_keeps_matched_rows:
  assumes "wf_frame df" and "read_csv pathToDiff = Inr diff"
    and "text_column ''Source File'' df" and "text_column ''File'' diff"
    and "''Modified'' \<in> set (columns diff)"
  shows "snd (edited_rows read_csv df pathToDiff modifiedFlags) =
           Inr \<lparr>columns = filter (\<lambda>c. c \<noteq> ''Edited'') (columns df),
                index = kept_labels (matched (manifest_paths modifiedFlags diff) (columns df)) df,
                rows = map (without ''Edited'' (columns df))
                  (filter (matched (manifest_paths modifiedFlags diff) (columns df)) (rows df))\<rparr> \<and>
         (''Edited'' \<notin> set (columns df) \<longrightarrow>
            snd (edited_rows read_csv df pathToDiff modifiedFlags) =
              Inr \<lparr>columns = columns df,
                   index = kept_labels (matched (manifest_paths modifiedFlags diff) (columns df)) df,
                   rows = filter (matched (manifest_paths modifiedFlags diff) (columns df))
                            (rows df)\<rparr>)"
proof -
  let ?cols = "columns df"
  let ?ecols = "assigned_columns ''Edited'' ?cols"
  let ?U = "\<lambda>r. assigned ''Edited'' (Flag False) ?cols r"
  let ?init = "setitem df ''Edited'' (map (\<lambda>r. Flag False) (rows df))"
  let ?paths = "manifest_paths modifiedFlags diff"
  let ?P = "matched ?paths ?cols"
  let ?W = "\<lambda>r. if ?P r then put ''Edited'' (Flag True) ?ecols (?U r) else ?U r"
  let ?df1 = "?init\<lparr>rows := map ?W (rows df)\<rparr>"
  have df0: "setitem df ''Edited'' (replicate (length (rows df)) (Flag False)) = ?init"
    by (simp add: map_replicate_const)
  from select_modified_total [OF assms(5), of modifiedFlags] obtain diff' where
    sel: "(case modifiedFlags of None \<Rightarrow> Inr diff | Some flags \<Rightarrow> select_modified flags diff) =
        Inr diff'"
    and dcols: "columns diff' = columns diff" and sub: "set (rows diff') \<subseteq> set (rows diff)"
    and paths: "map (\<lambda>e. cell (columns diff) e ''File'') (rows diff') = ?paths"
    by blast
  have len: "length r = length ?cols" if "r \<in> set (rows df)" for r
    by (rule wf_row_length [OF assms(1) that])
  have cols0: "columns ?init = ?ecols" and rows0: "rows ?init = map ?U (rows df)"
    and idx0: "index ?init = index df"
    by (simp_all add: setitem_map)
  have fcol: "''File'' \<in> set (columns diff')"
    and files: "list_all (\<lambda>e. is_str (cell (columns diff') e ''File'')) (rows diff')"
    using assms(4) sub by (auto simp: text_column_def dcols list_all_iff)
  have src0: "''Source File'' \<in> set (columns ?init)"
    using assms(3) by (simp add: cols0 text_column_def set_assigned_columns)
  have strs0: "list_all (\<lambda>r. is_str (cell (columns ?init) r ''Source File'')) (rows ?init)"
    using assms(3)
    by (simp add: cols0 rows0 text_column_def list_all_iff cell_assigned_other len)
  have P: "matched ?paths ?ecols (?U r) = ?P r" if "r \<in> set (rows df)" for r
    by (simp add: matched_def cell_assigned_other [OF _ len [OF that]])
  have eqrows: "map (\<lambda>r. if matched (map (\<lambda>e. cell (columns diff') e ''File'') (rows diff'))
                             (columns ?init) r
                       then put ''Edited'' (Flag True) (columns ?init) r else r) (rows ?init) =
      map ?W (rows df)"
    unfolding cols0 rows0 dcols paths map_map comp_def
    by (rule map_cong [OF refl]) (simp add: P)
  have loop: "mark_edited (columns diff') (rows diff') ?init = (?df1, None)"
    using mark_edited_total [OF fcol files src0 strs0] by (simp only: eqrows)
  have c1: "columns ?df1 = ?ecols" and rows1: "rows ?df1 = map ?W (rows df)"
    and idx1: "index ?df1 = index df"
    by (simp_all add: cols0 idx0)
  have flag: "(cell ?ecols (?W r) ''Edited'' = Flag True) = ?P r" if "r \<in> set (rows df)" for r
    by (simp add: cell_put_same in_assigned_columns length_assigned [OF len [OF that]]
        cell_assigned_same [OF len [OF that]])
  have ed: "getitem ?df1 ''Edited'' = Inr (map (\<lambda>r. cell ?ecols r ''Edited'') (map ?W (rows df)))"
    by (simp add: getitem_def cols0 in_assigned_columns)
  have mask: "map (\<lambda>v. v = Flag True) (map (\<lambda>r. cell ?ecols r ''Edited'') (map ?W (rows df))) =
      map ?P (rows df)"
    unfolding map_map comp_def by (rule map_cong [OF refl]) (simp only: flag)
  let ?K = "mask_rows (map ?P (rows df)) ?df1"
  have run: "snd (edited_rows read_csv df pathToDiff modifiedFlags) = drop_column ''Edited'' ?K"
    unfolding edited_rows_def Let_def df0
    by (simp only: assms(2) sel loop ed mask sum.case prod.case option.case snd_conv)
  have colsK: "columns ?K = ?ecols"
    by (simp add: mask_rows_def cols0)
  have rowsK: "rows ?K = map ?W (filter ?P (rows df))"
    by (simp add: mask_rows_def masked_map)
  have idxK: "index ?K = kept_labels ?P df"
    by (simp add: mask_rows_def idx0 kept_labels_def masked_labels)
  have wo: "without ''Edited'' ?ecols (put ''Edited'' (Flag True) ?ecols (?U r)) =
        without ''Edited'' ?cols r"
      "without ''Edited'' ?ecols (?U r) = without ''Edited'' ?cols r"
    if "r \<in> set (rows df)" for r
    by (simp_all add: without_put without_assigned [OF len [OF that]])
  have rowsR: "map (without ''Edited'' ?ecols) (map ?W (filter ?P (rows df))) =
      map (without ''Edited'' ?cols) (filter ?P (rows df))"
    unfolding map_map by (rule map_cong [OF refl]) (simp add: wo)
  have colsR: "filter (\<lambda>x. x \<noteq> ''Edited'') ?ecols = filter (\<lambda>c. c \<noteq> ''Edited'') ?cols"
    by (simp add: assigned_columns_def)
  have "drop_column ''Edited'' ?K =
      Inr (?K\<lparr>columns := filter (\<lambda>x. x \<noteq> ''Edited'') (columns ?K),
               rows := map (without ''Edited'' (columns ?K)) (rows ?K)\<rparr>)"
    by (simp add: drop_column_def colsK in_assigned_columns)
  also have "?K\<lparr>columns := filter (\<lambda>x. x \<noteq> ''Edited'') (columns ?K),
               rows := map (without ''Edited'' (columns ?K)) (rows ?K)\<rparr> =
      \<lparr>columns = filter (\<lambda>c. c \<noteq> ''Edited'') ?cols, index = kept_labels ?P df,
       rows = map (without ''Edited'' ?cols) (filter ?P (rows df))\<rparr>"
    unfolding colsK rowsK rowsR colsR using idxK by (cases ?K) simp
  finally have main: "snd (edited_rows read_csv df pathToDiff modifiedFlags) =
      Inr \<lparr>columns = filter (\<lambda>c. c \<noteq> ''Edited'') ?cols, index = kept_labels ?P df,
           rows = map (without ''Edited'' ?cols) (filter ?P (rows df))\<rparr>"
    using run by simp
  have "snd (edited_rows read_csv df pathToDiff modifiedFlags) =
      Inr \<lparr>columns = ?cols, index = kept_labels ?P df, rows = filter ?P (rows df)\<rparr>"
    if absent: "''Edited'' \<notin> set ?cols"
  proof -
    have "without ''Edited'' ?cols x = x" if "x \<in> set (rows df)" for x
      by (rule without_absent [OF absent len [OF that]])
    then have "map (without ''Edited'' ?cols) (filter ?P (rows df)) = filter ?P (rows df)"
      by (intro map_idI) simp
    moreover from absent have "filter (\<lambda>c. c \<noteq> ''Edited'') ?cols = ?cols"
      by (simp add: filter_id_conv) blast
    ultimately show ?thesis using main by simp
  qed
  with main show ?thesis by blast
qed

text \<open>
  The diff scenario: with the manifest entry \<^verbatim>\<open>src/drivers\<close> the row of
  \<^verbatim>\<open>src/drivers/net.c\<close> is kept and the row of \<^verbatim>\<open>src/other/net.c\<close> is dropped; with the
  manifest entry \<^verbatim>\<open>src/net.c\<close> the row of \<^verbatim>\<open>src/net.c\<close> is kept.
\<close>

theorem diff_filter_keeps_matched_rows_witness:
  "wf_frame twoFiles \<and> text_column ''Source File'' twoFiles \<and>
   text_column ''File'' folderDiff \<and> ''Modified'' \<in> set (columns folderDiff) \<and>
   snd (edited_rows (\<lambda>p. Inr folderDiff) twoFiles ''simplifiedDiff.csv'' None) =
     Inr \<lparr>columns = [''Source File'', ''Element''], index = [0],
          rows = [[Str ''src/drivers/net.c'', Str ''f'']]\<rparr> \<and>
   filter (matched (manifest_paths None folderDiff) (columns twoFiles)) (rows twoFiles) =
     [[Str ''src/drivers/net.c'', Str ''f'']] \<and>
   manifest_paths None folderDiff = [Str ''src/drivers''] \<and>
   snd (edited_rows (\<lambda>p. Inr fileDiff) oneFile ''simplifiedDiff.csv'' None) = Inr oneFile"
proof -
  have w: "wf_frame twoFiles"
    by (simp add: wf_frame_def twoFiles_def)
  have rd: "(\<lambda>p. Inr folderDiff) ''simplifiedDiff.csv'' = Inr folderDiff"
    by simp
  have t: "text_column ''Source File'' twoFiles"
    by (simp add: text_column_def twoFiles_def cell_def is_str_def)
  have f: "text_column ''File'' folderDiff"
    by (simp add: text_column_def folderDiff_def cell_def is_str_def)
  have m: "''Modified'' \<in> set (columns folderDiff)"
    by (simp add: folderDiff_def)
  have absent: "''Edited'' \<notin> set (columns twoFiles)"
    by (simp add: twoFiles_def)
  have paths: "manifest_paths None folderDiff = [Str ''src/drivers'']"
    by (simp add: manifest_paths_def folderDiff_def cell_def)
  have kept: "filter (matched (manifest_paths None folderDiff) (columns twoFiles))
      (rows twoFiles) = [[Str ''src/drivers/net.c'', Str ''f'']]"
    by (simp add: paths matched_def twoFiles_def cell_def suffix_to_prefix)
  have labels: "kept_labels (matched (manifest_paths None folderDiff) (columns twoFiles)) twoFiles =
      [0]"
    by (simp add: kept_labels_def paths matched_def twoFiles_def cell_def suffix_to_prefix)
  from diff_filter_keeps_matched_rows [OF w rd t f m, where modifiedFlags = None] absent
  have "snd (edited_rows (\<lambda>p. Inr folderDiff) twoFiles ''simplifiedDiff.csv'' None) =
      Inr \<lparr>columns = columns twoFiles,
           index = kept_labels (matched (manifest_paths None folderDiff) (columns twoFiles)) twoFiles,
           rows = filter (matched (manifest_paths None folderDiff) (columns twoFiles))
                    (rows twoFiles)\<rparr>"
    by blast
  then have run: "snd (edited_rows (\<lambda>p. Inr folderDiff) twoFiles ''simplifiedDiff.csv'' None) =
     Inr \<lparr>columns = [''Source File'', ''Element''], index = [0],
          rows = [[Str ''src/drivers/net.c'', Str ''f'']]\<rparr>"
    by (simp add: kept labels) (simp add: twoFiles_def)
  have exact: "snd (edited_rows (\<lambda>p. Inr fileDiff) oneFile ''simplifiedDiff.csv'' None) =
      Inr oneFile"
    by code_simp
  from w t f m run kept paths exact show ?thesis by simp
qed

lemma filterByDiff_always_raises:
  "\<exists>e. outcome (filterByDiff read_csv df pathToDiff modifiedFlags) = Inl e"
  by (cases "edited_rows read_csv df pathToDiff modifiedFlags")
     (auto simp: filterByDiff_def Let_def split: sum.splits)

text \<open>
  C6 fails on the code. On the frame and the manifest of the diff scenario the rows are
  filtered (lines 123 to 146 yield the one matching row, without the column \<^verbatim>\<open>Edited\<close>),
  but the diagnostic of line 150 applies \<^verbatim>\<open>len\<close> to the integer \<^verbatim>\<open>nRowsAfter\<close>: the call
  raises \<^verbatim>\<open>TypeError\<close>, prints nothing and returns nothing.
\<close>

theorem filterByDiff_diagnostic_raises:
  "snd (edited_rows (\<lambda>p. Inr folderDiff) twoFiles ''simplifiedDiff.csv'' None) =
     Inr \<lparr>columns = [''Source File'', ''Element''], index = [0],
          rows = [[Str ''src/drivers/net.c'', Str ''f'']]\<rparr> \<and>
   outcome (filterByDiff (\<lambda>p. Inr folderDiff) twoFiles ''simplifiedDiff.csv'' None) =
     Inl TypeError \<and>
   shown (filterByDiff (\<lambda>p. Inr folderDiff) twoFiles ''simplifiedDiff.csv'' None) = []"
  by code_simp

section \<open>Facts about the date bound\<close>

lemma collect_map_total:
  "(\<And>x. x \<in> set xs \<Longrightarrow> f x = Inr (g x)) \<Longrightarrow> collect (map f xs) = Inr (map g xs)"
  by (induction xs) simp_all

lemma map_filter_map: "List.map_filter f (map g xs) = List.map_filter (\<lambda>x. f (g x)) xs"
  by (induction xs) (simp_all add: List.map_filter_simps split: option.splits)

lemma date_le_lex: "date_le d c = on_or_before d c"
  by (cases d; cases c) (auto simp: on_or_before_def)

lemma to_datetime_readable:
  assumes "list_all (date_readable cols) rs"
  shows "to_datetime (map (\<lambda>r. cell cols r ''Date'') rs) =
     Inr (map (\<lambda>r. case report_stamp cols r of Some t \<Rightarrow> Stamp t | None \<Rightarrow> NaN) rs)"
proof -
  have "(case cell cols r ''Date'' of
           Str s \<Rightarrow> (case strptime_rfc s of Some t \<Rightarrow> Inr (Stamp t) | None \<Rightarrow> Inl ValueError)
         | NaN \<Rightarrow> Inr NaN
         | Stamp t \<Rightarrow> Inr (Stamp t)
         | _ \<Rightarrow> Inl ValueError) =
        Inr (case report_stamp cols r of Some t \<Rightarrow> Stamp t | None \<Rightarrow> NaN)"
    if "r \<in> set rs" for r
    using assms that
    by (auto simp: list_all_iff date_readable_def report_stamp_def
        split: val.splits option.splits)
  then show ?thesis
    unfolding to_datetime_def map_map comp_def by (rule collect_map_total)
qed

lemma dt_date_stamps:
  "dt_date (map (\<lambda>r. case report_stamp cols r of Some t \<Rightarrow> Stamp t | None \<Rightarrow> NaN) rs) =
     (if one_offset cols rs then Inr (map (report_date cols) rs) else Inl AttributeError)"
proof -
  have "collect (map (\<lambda>v. case v of Stamp t \<Rightarrow> Inr (Some t) | NaN \<Rightarrow> Inr None
                                  | _ \<Rightarrow> Inl AttributeError)
          (map (\<lambda>r. case report_stamp cols r of Some t \<Rightarrow> Stamp t | None \<Rightarrow> NaN) rs)) =
        Inr (map (report_stamp cols) rs)"
    unfolding map_map comp_def
    by (rule collect_map_total) (simp split: option.splits)
  then show ?thesis
    by (simp add: dt_date_def one_offset_def map_filter_map report_date_def)
qed

section \<open>Properties of mergeErrorReports\<close>

text \<open>
  C4, as the code has it. Let the accumulator \<open>df\<close> be well formed with a column \<^verbatim>\<open>Date\<close>
  whose every value is missing or matches the one format \<^verbatim>\<open>%a, %d %b %Y %H:%M:%S %z\<close>,
  and let the cut-off text parse (\<^verbatim>\<open>%d.%m.%Y\<close>) to the date \<open>cutoff\<close>. The date bound
  prints its line. When the dates are all written with the same offset from UTC, it
  returns the table of exactly the rows of \<open>df\<close>, with their labels, whose date, reduced
  to its calendar date as written (time of day and offset dropped), is on or before
  \<open>cutoff\<close>; the rows with a later date and the rows without a date are dropped, and the
  auxiliary column \<^verbatim>\<open>DateObject\<close> is not part of the result. When two dates are written
  with different offsets, it raises \<^verbatim>\<open>AttributeError\<close> and returns nothing.
\<close>

theorem cutoff_keeps_rows_not_after:
  assumes "wf_frame df" and "''Date'' \<in> set (columns df)"
    and "strptime_dmy lastDate = Some cutoff"
    and "list_all (date_readable (columns df)) (rows df)"
  shows "drop_reports_after (Some df) lastDate =
           ([''Drop all reports after: '' @ str_date cutoff],
            if one_offset (columns df) (rows df)
            then Inr \<lparr>columns = filter (\<lambda>c. c \<noteq> ''DateObject'') (columns df),
                      index = kept_labels (not_after cutoff (columns df)) df,
                      rows = map (without ''DateObject'' (columns df))
                               (filter (not_after cutoff (columns df)) (rows df))\<rparr>
            else Inl AttributeError) \<and>
         (''DateObject'' \<notin> set (columns df) \<and> one_offset (columns df) (rows df) \<longrightarrow>
            snd (drop_reports_after (Some df) lastDate) =
              Inr \<lparr>columns = columns df,
                   index = kept_labels (not_after cutoff (columns df)) df,
                   rows = filter (not_after cutoff (columns df)) (rows df)\<rparr>)"
proof -
  let ?cols = "columns df"
  let ?G = "\<lambda>r. case report_stamp ?cols r of Some t \<Rightarrow> Stamp t | None \<Rightarrow> NaN"
  let ?df' = "setitem df ''DateObject'' (map ?G (rows df))"
  let ?P = "not_after cutoff ?cols"
  let ?ecols = "assigned_columns ''DateObject'' ?cols"
  let ?K = "mask_rows (map ?P (rows df)) ?df'"
  let ?R = "\<lparr>columns = filter (\<lambda>c. c \<noteq> ''DateObject'') ?cols, index = kept_labels ?P df,
             rows = map (without ''DateObject'' ?cols) (filter ?P (rows df))\<rparr>"
  have ds: "getitem df ''Date'' = Inr (map (\<lambda>r. cell ?cols r ''Date'') (rows df))"
    using assms(2) by (simp add: getitem_def)
  have stamps: "to_datetime (map (\<lambda>r. cell ?cols r ''Date'') (rows df)) = Inr (map ?G (rows df))"
    by (rule to_datetime_readable [OF assms(4)])
  have col: "getitem ?df' ''DateObject'' = Inr (map ?G (rows df))"
    by (rule getitem_setitem_same [OF assms(1)])
  have mask: "map (not_later cutoff) (map (report_date ?cols) (rows df)) = map ?P (rows df)"
    by (simp add: not_later_def not_after_def date_le_lex split: option.splits)
  have colsK: "columns ?K = ?ecols"
    by (simp add: setitem_map mask_rows_def)
  have rowsK: "rows ?K =
      map (\<lambda>r. assigned ''DateObject'' (?G r) ?cols r) (filter ?P (rows df))"
    by (simp add: setitem_map mask_rows_def masked_map)
  have idxK: "index ?K = kept_labels ?P df"
    by (simp add: setitem_map mask_rows_def kept_labels_def masked_labels)
  have rowsR: "map (without ''DateObject'' ?ecols)
        (map (\<lambda>r. assigned ''DateObject'' (?G r) ?cols r) (filter ?P (rows df))) =
      map (without ''DateObject'' ?cols) (filter ?P (rows df))"
    unfolding map_map comp_def
    by (rule map_cong [OF refl]) (simp add: without_assigned wf_row_length [OF assms(1)])
  have colsR: "filter (\<lambda>x. x \<noteq> ''DateObject'') ?ecols = filter (\<lambda>c. c \<noteq> ''DateObject'') ?cols"
    by (simp add: assigned_columns_def)
  have "drop_column ''DateObject'' ?K =
      Inr (?K\<lparr>columns := filter (\<lambda>x. x \<noteq> ''DateObject'') (columns ?K),
               rows := map (without ''DateObject'' (columns ?K)) (rows ?K)\<rparr>)"
    by (simp add: drop_column_def colsK in_assigned_columns)
  also have "?K\<lparr>columns := filter (\<lambda>x. x \<noteq> ''DateObject'') (columns ?K),
               rows := map (without ''DateObject'' (columns ?K)) (rows ?K)\<rparr> = ?R"
    unfolding colsK rowsK rowsR colsR using idxK by (cases ?K) simp
  finally have dropped: "drop_column ''DateObject'' ?K = Inr ?R" .
  have main: "drop_reports_after (Some df) lastDate =
      ([''Drop all reports after: '' @ str_date cutoff],
       if one_offset ?cols (rows df) then Inr ?R else Inl AttributeError)"
    unfolding drop_reports_after_def Let_def
    by (simp only: assms(3) ds stamps col dt_date_stamps mask dropped
        option.case sum.case if_distrib [of "case_sum _ _"] cong: if_cong)
  have "snd (drop_reports_after (Some df) lastDate) =
      Inr \<lparr>columns = ?cols, index = kept_labels ?P df, rows = filter ?P (rows df)\<rparr>"
    if h: "''DateObject'' \<notin> set ?cols \<and> one_offset ?cols (rows df)"
  proof -
    from h have absent: "''DateObject'' \<notin> set ?cols" by simp
    have "without ''DateObject'' ?cols x = x" if "x \<in> set (rows df)" for x
      by (rule without_absent [OF absent wf_row_length [OF assms(1) that]])
    then have "map (without ''DateObject'' ?cols) (filter ?P (rows df)) = filter ?P (rows df)"
      by (intro map_idI) simp
    moreover from absent have "filter (\<lambda>c. c \<noteq> ''DateObject'') ?cols = ?cols"
      by (simp add: filter_id_conv) blast
    ultimately show ?thesis using main h by simp
  qed
  with main show ?thesis by blast
qed

text \<open>
  The cut-off scenario: with the cut-off \<^verbatim>\<open>03.11.2013\<close>, the report of 3 November 2013
  (one second before midnight) is kept with its label, the report without a date and the
  report of 4 November 2013 (at midnight) are dropped.
\<close>

theorem cutoff_keeps_rows_not_after_witness:
  "wf_frame threeReports \<and> ''Date'' \<in> set (columns threeReports) \<and>
   strptime_dmy ''03.11.2013'' = Some (Date 2013 11 3) \<and>
   list_all (date_readable (columns threeReports)) (rows threeReports) \<and>
   one_offset (columns threeReports) (rows threeReports) \<and>
   drop_reports_after (Some threeReports) ''03.11.2013'' =
     ([''Drop all reports after: 2013-11-03''],
      Inr \<lparr>columns = [''Source File'', ''Date''], index = [4],
           rows = [[Str ''a.c'', Str ''Sun, 03 Nov 2013 23:59:59 +0100'']]\<rparr>) \<and>
   filter (not_after (Date 2013 11 3) (columns threeReports)) (rows threeReports) =
     [[Str ''a.c'', Str ''Sun, 03 Nov 2013 23:59:59 +0100'']] \<and>
   map (report_date (columns threeReports)) (rows threeReports) =
     [Some (Date 2013 11 3), None, Some (Date 2013 11 4)]"
proof -
  have w: "wf_frame threeReports"
    by (simp add: wf_frame_def threeReports_def)
  have c: "''Date'' \<in> set (columns threeReports)"
    by (simp add: threeReports_def)
  have d: "strptime_dmy ''03.11.2013'' = Some (Date 2013 11 3)"
    by code_simp
  have r: "list_all (date_readable (columns threeReports)) (rows threeReports)"
    by code_simp
  have o: "one_offset (columns threeReports) (rows threeReports)"
    by code_simp
  have dates: "map (report_date (columns threeReports)) (rows threeReports) =
     [Some (Date 2013 11 3), None, Some (Date 2013 11 4)]"
    by code_simp
  have kept: "filter (not_after (Date 2013 11 3) (columns threeReports)) (rows threeReports) =
     [[Str ''a.c'', Str ''Sun, 03 Nov 2013 23:59:59 +0100'']]"
    by code_simp
  have labels: "kept_labels (not_after (Date 2013 11 3) (columns threeReports)) threeReports = [4]"
    by code_simp
  have s: "str_date (Date 2013 11 3) = ''2013-11-03''"
    by code_simp
  have absent: "''DateObject'' \<notin> set (columns threeReports)"
    by (simp add: threeReports_def)
  from cutoff_keeps_rows_not_after [OF w c d r] o
  have "drop_reports_after (Some threeReports) ''03.11.2013'' =
     ([''Drop all reports after: '' @ str_date (Date 2013 11 3)],
      Inr \<lparr>columns = filter (\<lambda>c. c \<noteq> ''DateObject'') (columns threeReports),
           index = kept_labels (not_after (Date 2013 11 3) (columns threeReports)) threeReports,
           rows = map (without ''DateObject'' (columns threeReports))
                    (filter (not_after (Date 2013 11 3) (columns threeReports))
                       (rows threeReports))\<rparr>)"
    by simp
  then have run: "drop_reports_after (Some threeReports) ''03.11.2013'' =
     ([''Drop all reports after: 2013-11-03''],
      Inr \<lparr>columns = [''Source File'', ''Date''], index = [4],
           rows = [[Str ''a.c'', Str ''Sun, 03 Nov 2013 23:59:59 +0100'']]\<rparr>)"
    unfolding kept labels s by (simp add: threeReports_def without_def)
  from w c d r o run kept dates show ?thesis by simp
qed

text \<open>
  C4, as it is stated, fails: the offset from UTC is not ignored. Two reports of
  3 November 2013, one written with the offset \<^verbatim>\<open>+0100\<close> and one with \<^verbatim>\<open>+0000\<close>, are both
  on the cut-off date \<^verbatim>\<open>03.11.2013\<close>, yet the date bound keeps neither: the parsed column
  has no common time zone, the accessor \<^verbatim>\<open>.dt\<close> raises \<^verbatim>\<open>AttributeError\<close>, and no table is
  returned.
\<close>

theorem cutoff_raises_on_two_offsets:
  "drop_reports_after (Some twoOffsets) ''03.11.2013'' =
     ([''Drop all reports after: 2013-11-03''], Inl AttributeError) \<and>
   map (report_date (columns twoOffsets)) (rows twoOffsets) =
     [Some (Date 2013 11 3), Some (Date 2013 11 3)] \<and>
   filter (not_after (Date 2013 11 3) (columns twoOffsets)) (rows twoOffsets) =
     rows twoOffsets \<and>
   strptime_dmy ''03.11.2013'' = Some (Date 2013 11 3)"
  by code_simp

lemma load_reports_no_folder:
  "\<forall>n \<in> set names. \<not> isdir (baseFolder @ ''/'' @ n) \<Longrightarrow>
   snd (load_reports isdir read_excel baseFolder mergeType names result) = Inr result"
  by (induction names) (simp_all add: Let_def)

text \<open>
  C10. When a cut-off date is given and the folder of no period exists, the accumulator is
  still \<^verbatim>\<open>None\<close> and \<^verbatim>\<open>mergeErrorReports\<close> raises: \<^verbatim>\<open>ValueError\<close> when the cut-off
  itself does not parse, and otherwise \<^verbatim>\<open>TypeError\<close> when the column \<^verbatim>\<open>Date\<close> of
  \<^verbatim>\<open>None\<close> is read.
\<close>

theorem mergeErrorReports_cutoff_without_reports:
  assumes "\<forall>n \<in> set (report_names years). \<not> isdir (baseFolder @ ''/'' @ n)"
  shows "snd (mergeErrorReports isdir read_excel baseFolder years mergeType (Some lastDate)) =
    Inl (if strptime_dmy lastDate = None then ValueError else TypeError)"
  using load_reports_no_folder [OF assms, of read_excel mergeType None]
  by (simp add: mergeErrorReports_def drop_reports_after_def Let_def split: option.splits)

theorem mergeErrorReports_cutoff_without_reports_witness:
  "strptime_dmy ''03.11.2013'' = Some (Date 2013 11 3) \<and>
   snd (mergeErrorReports (\<lambda>p. False) (\<lambda>p. Inl FileNotFoundError) ''base'' [''2013'']
          ALL_BUT_DATE (Some ''03.11.2013'')) = Inl TypeError"
proof -
  have h: "\<forall>n \<in> set (report_names [''2013'']). \<not> (\<lambda>p. False) (''base'' @ ''/'' @ n)"
    by simp
  have d: "strptime_dmy ''03.11.2013'' = Some (Date 2013 11 3)"
    by code_simp
  from mergeErrorReports_cutoff_without_reports [of "[''2013'']" "\<lambda>p. False" "''base''",
      OF h, of "\<lambda>p. Inl FileNotFoundError" ALL_BUT_DATE "''03.11.2013''"] h d
  show ?thesis by simp
qed

end
